theory Spec2Isabelle
  imports
    Complex_Main
    "HOL-Library.Char_ord"
    "HOL-Library.List_Lexorder"
    "HOL-Library.Product_Lexorder"
begin

section \<open>Calendar values\<close>

text \<open>
  The scripts hold dates as pandas \<^verbatim>\<open>Timestamp\<close> values built from year, month and day
  columns, so every timestamp of the model is a calendar date at midnight. A
  \<^verbatim>\<open>Timestamp\<close> cannot hold a month outside 1..12; the model keeps that invariant in the
  type, and \<open>month_num\<close> is the integer the attribute \<^verbatim>\<open>.month\<close> returns.
\<close>

datatype month_of_year = Jan | Feb | Mar | Apr | May | Jun | Jul | Aug | Sep | Oct | Nov | Dec

fun month_num :: "month_of_year \<Rightarrow> int" where
  "month_num Jan = 1"
| "month_num Feb = 2"
| "month_num Mar = 3"
| "month_num Apr = 4"
| "month_num May = 5"
| "month_num Jun = 6"
| "month_num Jul = 7"
| "month_num Aug = 8"
| "month_num Sep = 9"
| "month_num Oct = 10"
| "month_num Nov = 11"
| "month_num Dec = 12"

text \<open>The month whose number is one more; the scripts apply it to months before December only.\<close>

fun succ_month :: "month_of_year \<Rightarrow> month_of_year" where
  "succ_month Jan = Feb"
| "succ_month Feb = Mar"
| "succ_month Mar = Apr"
| "succ_month Apr = May"
| "succ_month May = Jun"
| "succ_month Jun = Jul"
| "succ_month Jul = Aug"
| "succ_month Aug = Sep"
| "succ_month Sep = Oct"
| "succ_month Oct = Nov"
| "succ_month Nov = Dec"
| "succ_month Dec = Jan"

record timestamp =
  year :: int
  month :: month_of_year
  day :: int

text \<open>\<^verbatim>\<open>ts.replace(day=1)\<close>\<close>

definition replace_day1 :: "timestamp \<Rightarrow> timestamp" where
  "replace_day1 d = d\<lparr>day := 1\<rparr>"

text \<open>Comparison of two timestamps at midnight: by year, then month, then day.\<close>

definition ts_key :: "timestamp \<Rightarrow> int \<times> int \<times> int" where
  "ts_key d = (year d, month_num (month d), day d)"

definition ts_le :: "timestamp \<Rightarrow> timestamp \<Rightarrow> bool" where
  "ts_le a b = (ts_key a \<le> ts_key b)"

definition ts_lt :: "timestamp \<Rightarrow> timestamp \<Rightarrow> bool" where
  "ts_lt a b = (ts_key a < ts_key b)"

text \<open>
  \<^verbatim>\<open>strftime('%m/%Y')\<close>: the month on two digits, a slash, the year on four digits
  (pandas timestamps lie between the years 1677 and 2262).
\<close>

definition digit_char :: "nat \<Rightarrow> char" where
  "digit_char n = ''0123456789'' ! (n mod 10)"

definition strftime_mY :: "timestamp \<Rightarrow> string" where
  "strftime_mY d =
     (let m = nat (month_num (month d)); y = nat (year d)
      in [digit_char (m div 10), digit_char m, CHR ''/'',
          digit_char (y div 1000), digit_char (y div 100), digit_char (y div 10), digit_char y])"

text \<open>The years \<^verbatim>\<open>%Y\<close> writes on four digits; every pandas timestamp has such a year.\<close>

definition four_digit_year :: "timestamp \<Rightarrow> bool" where
  "four_digit_year d \<longleftrightarrow> 1000 \<le> year d \<and> year d \<le> 9999"

section \<open>The main analysis script\<close>

subsection \<open>Rows\<close>

text \<open>
  The columns a transaction and a monthly row share. A missing cell (NaN) is \<open>None\<close>.
  The revenue column is left as a type parameter: the main script reads it as a number,
  the pipeline scripts convert it cell by cell.
\<close>

record 'r attributes =
  customer_id :: nat
  subscription_id :: nat
  frequence :: "string option"
  type_col :: "string option"
  payment_origin :: "string option"
  psp :: "string option"
  tm_source :: "string option"
  tm_medium :: "string option"
  tm_campaign :: "string option"
  consolidated_revenues_ht_euro :: 'r

text \<open>
  A transaction as \<^verbatim>\<open>load_and_clean_data\<close> returns it: rows without customer, order date or
  due date have been dropped.
\<close>

record transaction = "rat option attributes" +
  order_date :: timestamp
  echeance_date :: timestamp

record monthly_row = "rat option attributes" +
  mois :: string
  mois_relatif :: int
  date_debut_parcours :: string

subsection \<open>pandas helpers\<close>

text \<open>\<^verbatim>\<open>Series.unique()\<close>: the distinct values in order of first appearance.\<close>

definition unique :: "'a list \<Rightarrow> 'a list" where
  "unique xs = rev (remdups (rev xs))"

text \<open>\<^verbatim>\<open>Series.nunique()\<close>\<close>

definition nunique :: "'a list \<Rightarrow> nat" where
  "nunique xs = length (unique xs)"

text \<open>
  \<^verbatim>\<open>DataFrame.drop_duplicates(subset=...)\<close> with the default \<^verbatim>\<open>keep='first'\<close>: a row is
  dropped when an earlier row has the same key.
\<close>

fun drop_duplicates_seen :: "'k list \<Rightarrow> ('a \<Rightarrow> 'k) \<Rightarrow> 'a list \<Rightarrow> 'a list" where
  "drop_duplicates_seen seen key [] = []"
| "drop_duplicates_seen seen key (r # rs) =
     (if key r \<in> set seen then drop_duplicates_seen seen key rs
      else r # drop_duplicates_seen (key r # seen) key rs)"

definition drop_duplicates :: "('a \<Rightarrow> 'k) \<Rightarrow> 'a list \<Rightarrow> 'a list" where
  "drop_duplicates key rs = drop_duplicates_seen [] key rs"

subsection \<open>\<^verbatim>\<open>create_monthly_retention_table\<close>\<close>

text \<open>The step at the end of the while loop: December rolls over to January of the next year.\<close>

definition next_month :: "timestamp \<Rightarrow> timestamp" where
  "next_month current_month =
     (if month_num (month current_month) = 12
      then current_month\<lparr>year := year current_month + 1, month := Jan\<rparr>
      else current_month\<lparr>month := succ_month (month current_month)\<rparr>)"

text \<open>\<open>(current_month.year - journey_start_month.year) * 12 + (current_month.month - journey_start_month.month)\<close>\<close>

definition months_diff :: "timestamp \<Rightarrow> timestamp \<Rightarrow> int" where
  "months_diff current_month journey_start_month =
     (year current_month - year journey_start_month) * 12
     + (month_num (month current_month) - month_num (month journey_start_month))"

text \<open>The position of a month on the line of all months; used for termination and in proofs.\<close>

definition month_index :: "timestamp \<Rightarrow> int" where
  "month_index d = year d * 12 + month_num (month d)"

text \<open>The dictionary appended to \<^verbatim>\<open>monthly_data\<close> for one month of one transaction.\<close>

definition month_entry :: "timestamp \<Rightarrow> transaction \<Rightarrow> timestamp \<Rightarrow> monthly_row" where
  "month_entry journey_start_month t current_month =
     \<lparr> customer_id = customer_id t,
       subscription_id = subscription_id t,
       frequence = frequence t,
       type_col = type_col t,
       payment_origin = payment_origin t,
       psp = psp t,
       tm_source = tm_source t,
       tm_medium = tm_medium t,
       tm_campaign = tm_campaign t,
       consolidated_revenues_ht_euro = consolidated_revenues_ht_euro t,
       mois = strftime_mY current_month,
       mois_relatif = months_diff current_month journey_start_month,
       date_debut_parcours = strftime_mY journey_start_month \<rparr>"

text \<open>The while loop \<^verbatim>\<open>while current_month <= end_month\<close>, returning the months it visits.\<close>

function months_loop :: "timestamp \<Rightarrow> timestamp \<Rightarrow> timestamp list" where
  "months_loop current_month end_month =
     (if ts_le current_month end_month
      then current_month # months_loop (next_month current_month) end_month
      else [])"
  by pat_completeness auto
termination
proof (relation "measure (\<lambda>(c, e). nat (month_index e - month_index c + 1))")
  show "wf (measure (\<lambda>(c, e). nat (month_index e - month_index c + 1)))"
    by simp
next
  fix current_month end_month :: timestamp
  assume le: "ts_le current_month end_month"
  have b1: "1 \<le> month_num (month end_month)" "month_num (month current_month) \<le> 12"
    by (cases "month end_month"; simp) (cases "month current_month"; simp)
  have step: "month_index (next_month current_month) = month_index current_month + 1"
    by (cases "month current_month") (simp_all add: next_month_def month_index_def)
  have "month_index current_month \<le> month_index end_month"
    using le b1 by (auto simp: ts_le_def ts_key_def month_index_def less_eq_prod_def)
  with step show "((next_month current_month, end_month), (current_month, end_month))
      \<in> measure (\<lambda>(c, e). nat (month_index e - month_index c + 1))"
    by simp
qed

declare months_loop.simps [simp del]

text \<open>
  The body of \<^verbatim>\<open>for _, transaction in customer_data.iterrows()\<close>: the rows one transaction
  contributes, from the month of its order date to the month of its due date.
\<close>

definition transaction_rows :: "timestamp \<Rightarrow> transaction \<Rightarrow> monthly_row list" where
  "transaction_rows journey_start_month t =
     (let start_month = replace_day1 (order_date t);
          end_month = replace_day1 (echeance_date t)
      in map (month_entry journey_start_month t) (months_loop start_month end_month))"

text \<open>\<^verbatim>\<open>Series.min()\<close> of a series that is not empty, given as its first value and the rest.\<close>

fun ts_min :: "timestamp \<Rightarrow> timestamp list \<Rightarrow> timestamp" where
  "ts_min d [] = d"
| "ts_min d (e # es) = ts_min (if ts_lt e d then e else d) es"

text \<open>
  \<^verbatim>\<open>customer_data['order_date'].min()\<close>; the minimum of an empty series is \<^verbatim>\<open>NaT\<close>,
  here \<open>None\<close>.
\<close>

definition journey_start :: "transaction list \<Rightarrow> timestamp option" where
  "journey_start customer_data =
     (case map order_date customer_data of [] \<Rightarrow> None | d # ds \<Rightarrow> Some (ts_min d ds))"

text \<open>
  The body of \<^verbatim>\<open>for idx, customer_id in enumerate(df['customer_id'].unique())\<close>. The
  customer comes from the frame, so \<^verbatim>\<open>customer_data\<close> is never empty there; were it
  empty, the inner loop would have no transaction to visit.
\<close>

definition customer_rows :: "transaction list \<Rightarrow> nat \<Rightarrow> monthly_row list" where
  "customer_rows df cid =
     (let customer_data = filter (\<lambda>t. customer_id t = cid) df
      in case journey_start customer_data of
           None \<Rightarrow> []
         | Some js \<Rightarrow>
             (let journey_start_month = replace_day1 js
              in concat (map (transaction_rows journey_start_month) customer_data)))"

text \<open>The list \<^verbatim>\<open>monthly_data\<close> when the two loops have run.\<close>

definition monthly_data :: "transaction list \<Rightarrow> monthly_row list" where
  "monthly_data df = concat (map (customer_rows df) (unique (map customer_id df)))"

datatype error = KeyError

text \<open>
  \<^verbatim>\<open>pd.DataFrame(monthly_data).drop_duplicates(subset=['customer_id', 'mois'])\<close>. A frame
  built from an empty list has no columns, and the function then stops with a
  \<^verbatim>\<open>KeyError\<close> when it reads the column \<^verbatim>\<open>customer_id\<close>.
\<close>

definition dedup_key :: "monthly_row \<Rightarrow> nat \<times> string" where
  "dedup_key r = (customer_id r, mois r)"

definition create_monthly_retention_table :: "transaction list \<Rightarrow> error + monthly_row list" where
  "create_monthly_retention_table df =
     (if monthly_data df = [] then Inl KeyError
      else Inr (drop_duplicates dedup_key (monthly_data df)))"

subsection \<open>\<^verbatim>\<open>calculate_cohort_retention\<close>\<close>

text \<open>
  A row of \<^verbatim>\<open>retention_results\<close>. Its key \<^verbatim>\<open>mois_relatif\<close> is written \<open>mois_relatif_c\<close>
  here, the name being taken by the column of the monthly table.
\<close>

record retention_point =
  cohorte :: string
  mois_relatif_c :: int
  clients_initiaux :: nat
  clients_actifs :: nat
  taux_retention :: rat

text \<open>
  \<^verbatim>\<open>round(x, 2)\<close>: to the nearest hundredth, a tie going to the even neighbour. The
  rates are exact rationals in the model and binary floating point in the script.
\<close>

definition round2 :: "rat \<Rightarrow> rat" where
  "round2 x =
     (let f = \<lfloor>x * 100\<rfloor>; d = x * 100 - of_int f
      in of_int (if d < 1 / 2 then f else if 1 / 2 < d then f + 1
                 else if even f then f else f + 1) / 100)"

text \<open>\<^verbatim>\<open>cohort_data[cohort_data['mois_relatif'] == m]['customer_id'].nunique()\<close>\<close>

definition customers_at :: "int \<Rightarrow> ('a monthly_row_scheme) list \<Rightarrow> nat" where
  "customers_at m cohort_data =
     nunique (map customer_id (filter (\<lambda>r. mois_relatif r = m) cohort_data))"

definition retention_rate :: "nat \<Rightarrow> nat \<Rightarrow> rat" where
  "retention_rate active_customers initial_customers =
     (of_nat active_customers / of_nat initial_customers) * 100"

text \<open>The body of \<^verbatim>\<open>for cohort in monthly_df['date_debut_parcours'].unique()\<close>.\<close>

definition cohort_points :: "monthly_row list \<Rightarrow> string \<Rightarrow> retention_point list" where
  "cohort_points monthly_df cohort =
     (let cohort_data = filter (\<lambda>r. date_debut_parcours r = cohort) monthly_df;
          initial_customers = customers_at 0 cohort_data
      in if initial_customers = 0 then []
         else map (\<lambda>month_rel.
                \<lparr> cohorte = cohort,
                  mois_relatif_c = month_rel,
                  clients_initiaux = initial_customers,
                  clients_actifs = customers_at month_rel cohort_data,
                  taux_retention =
                    round2 (retention_rate (customers_at month_rel cohort_data) initial_customers) \<rparr>)
              (sort (unique (map mois_relatif cohort_data))))"

definition retention_results :: "monthly_row list \<Rightarrow> retention_point list" where
  "retention_results monthly_df =
     concat (map (cohort_points monthly_df) (unique (map date_debut_parcours monthly_df)))"

text \<open>
  The frame is sorted by \<^verbatim>\<open>['cohorte', 'mois_relatif']\<close> at the end; with no result row it
  has no such columns and \<^verbatim>\<open>sort_values\<close> raises \<^verbatim>\<open>KeyError\<close>.
\<close>

definition calculate_cohort_retention :: "monthly_row list \<Rightarrow> error + retention_point list" where
  "calculate_cohort_retention monthly_df =
     (if retention_results monthly_df = [] then Inl KeyError
      else Inr (sort_key (\<lambda>p. (cohorte p, mois_relatif_c p)) (retention_results monthly_df)))"

subsection \<open>\<^verbatim>\<open>calculate_segmented_retention\<close>\<close>

record segment_point = retention_point +
  segment_type :: string
  segment_value :: string

record cleaned_row = monthly_row +
  psp_clean :: string
  revenue_tranche :: "string option"

text \<open>\<^verbatim>\<open>Series.fillna(v)\<close> on one cell.\<close>

definition fillna :: "'a \<Rightarrow> 'a option \<Rightarrow> 'a" where
  "fillna v c = (case c of None \<Rightarrow> v | Some x \<Rightarrow> x)"

text \<open>
  \<^verbatim>\<open>pd.cut(x, bins=[0, 5, 10, 15, 20, inf], labels=[...])\<close> on one value: the bins are open
  on the left and closed on the right, and a value in no bin gives a missing label. The
  labels end with the euro sign, three bytes in UTF-8.
\<close>

definition euro :: string where
  "euro = [CHR 0xE2, CHR 0x82, CHR 0xAC]"

definition cut_revenue :: "rat \<Rightarrow> string option" where
  "cut_revenue x =
     (if 0 < x \<and> x \<le> 5 then Some (''0-5'' @ euro)
      else if 5 < x \<and> x \<le> 10 then Some (''5-10'' @ euro)
      else if 10 < x \<and> x \<le> 15 then Some (''10-15'' @ euro)
      else if 15 < x \<and> x \<le> 20 then Some (''15-20'' @ euro)
      else if 20 < x then Some (''>20'' @ euro)
      else None)"

definition clean_row :: "monthly_row \<Rightarrow> cleaned_row" where
  "clean_row r =
     monthly_row.extend r
       \<lparr> psp_clean = fillna ''CB'' (psp r),
         revenue_tranche = cut_revenue (fillna 0 (consolidated_revenues_ht_euro r)) \<rparr>"

text \<open>The body of \<^verbatim>\<open>for cohort in segment_data['date_debut_parcours'].unique()\<close>.\<close>

definition cohort_segment_points ::
  "string \<Rightarrow> string \<Rightarrow> cleaned_row list \<Rightarrow> string \<Rightarrow> segment_point list" where
  "cohort_segment_points segment_name value segment_data cohort =
     (let cohort_segment_data = filter (\<lambda>r. date_debut_parcours r = cohort) segment_data;
          initial_customers = customers_at 0 cohort_segment_data
      in if initial_customers < 10 then []
         else map (\<lambda>month_rel.
                \<lparr> cohorte = cohort,
                  mois_relatif_c = month_rel,
                  clients_initiaux = initial_customers,
                  clients_actifs = customers_at month_rel cohort_segment_data,
                  taux_retention =
                    round2 (retention_rate (customers_at month_rel cohort_segment_data)
                              initial_customers),
                  segment_type = segment_name,
                  segment_value = value \<rparr>)
              (sort (unique (map mois_relatif cohort_segment_data))))"

text \<open>
  The body of \<^verbatim>\<open>for segment_name, column in segments.items()\<close>: the list
  \<^verbatim>\<open>segment_retention\<close> of one segment column. \<^verbatim>\<open>dropna().unique()\<close> keeps the values
  that are present.
\<close>

definition segment_retention ::
  "string \<Rightarrow> (cleaned_row \<Rightarrow> string option) \<Rightarrow> cleaned_row list \<Rightarrow> segment_point list" where
  "segment_retention segment_name column monthly_df_clean =
     concat (map (\<lambda>value.
         (let segment_data = filter (\<lambda>r. column r = Some value) monthly_df_clean
          in concat (map (cohort_segment_points segment_name value segment_data)
                       (unique (map date_debut_parcours segment_data)))))
       (unique (concat (map (\<lambda>r. case column r of None \<Rightarrow> [] | Some v \<Rightarrow> [v])
                          monthly_df_clean))))"

text \<open>The five segment columns, in the order of the dictionary \<^verbatim>\<open>segments\<close>.\<close>

definition segments :: "(string \<times> (cleaned_row \<Rightarrow> string option)) list" where
  "segments =
     [(''frequence'', frequence),
      (''tm_source'', tm_source),
      (''tm_medium'', tm_medium),
      (''psp'', \<lambda>r. Some (psp_clean r)),
      (''revenue_tranche'', revenue_tranche)]"

text \<open>The dictionary \<^verbatim>\<open>segmented_results\<close>: a segment is stored when it has result rows.\<close>

definition calculate_segmented_retention ::
  "monthly_row list \<Rightarrow> (string \<times> segment_point list) list" where
  "calculate_segmented_retention monthly_df =
     (let monthly_df_clean = map clean_row monthly_df
      in filter (\<lambda>(segment_name, points). points \<noteq> [])
           (map (\<lambda>(segment_name, column).
                   (segment_name, segment_retention segment_name column monthly_df_clean))
              segments))"

section \<open>The pipeline scripts\<close>

text \<open>
  The scripts \<^verbatim>\<open>pipeline_JA\<close>, \<^verbatim>\<open>analyse_abo_court\<close>, \<^verbatim>\<open>lancer_analyse\<close> and
  \<^verbatim>\<open>rapport_final\<close> work on one row per subscription. \<^verbatim>\<open>analyse_abo_court\<close>,
  \<^verbatim>\<open>lancer_analyse\<close> and \<^verbatim>\<open>rapport_final\<close> share the code that cuts journeys;
  \<^verbatim>\<open>pipeline_JA\<close> is the earlier version of it.
\<close>

subsection \<open>Days\<close>

text \<open>
  The proleptic Gregorian calendar of \<^verbatim>\<open>datetime\<close>: \<open>toordinal\<close> counts days, so the
  difference of two ordinals is \<^verbatim>\<open>(a - b).days\<close> for timestamps at midnight, and
  \<open>plus_days n\<close> is \<^verbatim>\<open>+ pd.Timedelta(days=n)\<close>.
\<close>

definition is_leap :: "int \<Rightarrow> bool" where
  "is_leap y \<longleftrightarrow> y mod 4 = 0 \<and> (y mod 100 \<noteq> 0 \<or> y mod 400 = 0)"

fun days_in_month :: "int \<Rightarrow> month_of_year \<Rightarrow> int" where
  "days_in_month y Feb = (if is_leap y then 29 else 28)"
| "days_in_month y Apr = 30"
| "days_in_month y Jun = 30"
| "days_in_month y Sep = 30"
| "days_in_month y Nov = 30"
| "days_in_month y m = 31"

definition days_before_year :: "int \<Rightarrow> int" where
  "days_before_year y = (y - 1) * 365 + (y - 1) div 4 - (y - 1) div 100 + (y - 1) div 400"

definition days_before_month :: "int \<Rightarrow> month_of_year \<Rightarrow> int" where
  "days_before_month y m =
     sum_list (map (days_in_month y)
       (takeWhile (\<lambda>k. k \<noteq> m) [Jan, Feb, Mar, Apr, May, Jun, Jul, Aug, Sep, Oct, Nov, Dec]))"

definition toordinal :: "timestamp \<Rightarrow> int" where
  "toordinal d = days_before_year (year d) + days_before_month (year d) (month d) + day d"

definition next_day :: "timestamp \<Rightarrow> timestamp" where
  "next_day d =
     (if day d < days_in_month (year d) (month d) then d\<lparr>day := day d + 1\<rparr>
      else (next_month d)\<lparr>day := 1\<rparr>)"

definition plus_days :: "nat \<Rightarrow> timestamp \<Rightarrow> timestamp" where
  "plus_days n d = (next_day ^^ n) d"

subsection \<open>Strings and numbers\<close>

text \<open>\<^verbatim>\<open>str.lower()\<close> on the letters A to Z, and the test \<^verbatim>\<open>p in s\<close>.\<close>

definition char_lower :: "char \<Rightarrow> char" where
  "char_lower c =
     (case map_of (zip ''ABCDEFGHIJKLMNOPQRSTUVWXYZ'' ''abcdefghijklmnopqrstuvwxyz'') c of
        Some l \<Rightarrow> l
      | None \<Rightarrow> c)"

definition str_lower :: "string \<Rightarrow> string" where
  "str_lower s = map char_lower s"

fun str_contains :: "string \<Rightarrow> string \<Rightarrow> bool" where
  "str_contains p [] = (p = [])"
| "str_contains p (c # cs) = (take (length p) (c # cs) = p \<or> str_contains p cs)"

text \<open>
  \<^verbatim>\<open>df['frequence'].str.lower().str.contains('monthly', na=False)\<close> on one cell: a missing
  frequency gives \<open>False\<close>.
\<close>

definition contains_monthly :: "string option \<Rightarrow> bool" where
  "contains_monthly f =
     (case f of None \<Rightarrow> False | Some s \<Rightarrow> str_contains ''monthly'' (str_lower s))"

text \<open>\<^verbatim>\<open>str(getattr(row, 'frequence', '')).lower()\<close>: a missing cell prints as \<^verbatim>\<open>nan\<close>.\<close>

definition frequence_str :: "string option \<Rightarrow> string" where
  "frequence_str f = str_lower (case f of None \<Rightarrow> ''nan'' | Some s \<Rightarrow> s)"

text \<open>A Python float: a number (exact, in the model) or NaN.\<close>

datatype pyfloat = Fin rat | NaN

fun divide_by_12 :: "pyfloat \<Rightarrow> pyfloat" where
  "divide_by_12 (Fin r) = Fin (r / 12)"
| "divide_by_12 NaN = NaN"

subsection \<open>Subscription rows\<close>

text \<open>
  One row per subscription. The revenue cell holds the outcome of
  \<^verbatim>\<open>float(str(cell).replace(',', '.'))\<close>: \<open>None\<close> when the conversion raises
  \<^verbatim>\<open>ValueError\<close> or \<^verbatim>\<open>TypeError\<close>. The two dates are the columns after
  \<^verbatim>\<open>pd.to_datetime(..., errors='coerce')\<close>; \<open>None\<close> is \<^verbatim>\<open>NaT\<close>. They are named as in
  \<^verbatim>\<open>lancer_analyse\<close>, which copies them back to \<^verbatim>\<open>order_date\<close> and \<^verbatim>\<open>ECHEANCE_date\<close>.
\<close>

record subscription = "pyfloat option attributes" +
  order_date_dt :: "timestamp option"
  ECHEANCE_date_dt :: "timestamp option"

record tracked_subscription = subscription +
  methode_reparation_date :: string

text \<open>
  The frame \<^verbatim>\<open>df_grouped\<close> before the repair: the raw date cells and the six columns of
  date components.
\<close>

record raw_subscription = "pyfloat option attributes" +
  raw_order_date :: "string option"
  raw_ECHEANCE_date :: "string option"
  order_date_annee :: "int option"
  order_date_mois :: "int option"
  order_date_jour :: "int option"
  ECHEANCE_annee :: "int option"
  ECHEANCE_mois :: "int option"
  ECHEANCE_jour :: "int option"

subsection \<open>\<^verbatim>\<open>group_and_repair_data\<close>\<close>

text \<open>
  \<^verbatim>\<open>pd.to_datetime\<close> of a raw cell is a parameter \<open>parse\<close> of the model (the format of
  the cells is not fixed by the scripts); a missing cell gives \<^verbatim>\<open>NaT\<close>.
  \<^verbatim>\<open>pd.to_datetime\<close> of a frame with columns year, month, day gives a date when the three
  are present and form one.
\<close>

definition parse_cell :: "(string \<Rightarrow> timestamp option) \<Rightarrow> string option \<Rightarrow> timestamp option" where
  "parse_cell parse c = (case c of None \<Rightarrow> None | Some s \<Rightarrow> parse s)"

definition month_of_num :: "int \<Rightarrow> month_of_year option" where
  "month_of_num n =
     find (\<lambda>m. month_num m = n) [Jan, Feb, Mar, Apr, May, Jun, Jul, Aug, Sep, Oct, Nov, Dec]"

definition to_datetime_ymd :: "int option \<Rightarrow> int option \<Rightarrow> int option \<Rightarrow> timestamp option" where
  "to_datetime_ymd y m d =
     (case (y, m, d) of
        (Some y', Some m', Some d') \<Rightarrow>
          (case month_of_num m' of
             None \<Rightarrow> None
           | Some mo \<Rightarrow>
               if 1 \<le> d' \<and> d' \<le> days_in_month y' mo
               then Some \<lparr>year = y', month = mo, day = d'\<rparr> else None)
      | _ \<Rightarrow> None)"

text \<open>
  The three labels of \<^verbatim>\<open>methode_reparation_date\<close>; the third is \<^verbatim>\<open>Imput.e (+30j)\<close>
  with an e acute, two bytes in UTF-8.
\<close>

definition Originale :: string where
  "Originale = ''Originale''"

definition Reconstruite :: string where
  "Reconstruite = ''Reconstruite''"

definition Imputee :: string where
  "Imputee = ''Imput'' @ [CHR 0xC3, CHR 0xA9] @ ''e (+30j)''"

text \<open>The condition \<^verbatim>\<open>condition_fix_echeance\<close> on one row.\<close>

definition condition_fix_echeance ::
  "string option \<Rightarrow> timestamp option \<Rightarrow> timestamp option \<Rightarrow> bool" where
  "condition_fix_echeance f echeance ordered \<longleftrightarrow>
     contains_monthly f \<and> echeance = None \<and> ordered \<noteq> None"

text \<open>
  \<^verbatim>\<open>lancer_analyse.group_and_repair_data\<close> on one row of \<^verbatim>\<open>df_grouped\<close>, phase by phase.
  The label \<^verbatim>\<open>Reconstruite\<close> is written on every row whose date had to be rebuilt
  (\<^verbatim>\<open>reconstructed_dates.notna().index\<close> is the index of all of them).
\<close>

definition repair_row :: "(string \<Rightarrow> timestamp option) \<Rightarrow> raw_subscription \<Rightarrow> tracked_subscription" where
  "repair_row parse raw =
     (let methode0 = Originale;
          order0 = parse_cell parse (raw_order_date raw);
          echeance0 = parse_cell parse (raw_ECHEANCE_date raw);
          order1 = (if order0 = None
                    then to_datetime_ymd (order_date_annee raw) (order_date_mois raw)
                           (order_date_jour raw)
                    else order0);
          methode1 = (if order0 = None then Reconstruite else methode0);
          echeance1 = (if echeance0 = None
                       then to_datetime_ymd (ECHEANCE_annee raw) (ECHEANCE_mois raw)
                              (ECHEANCE_jour raw)
                       else echeance0);
          methode2 = (if echeance0 = None then Reconstruite else methode1);
          fix = condition_fix_echeance (frequence raw) echeance1 order1;
          echeance2 = (if fix then map_option (plus_days 30) order1 else echeance1);
          methode3 = (if fix then Imputee else methode2)
      in \<lparr> customer_id = customer_id raw, subscription_id = subscription_id raw,
           frequence = frequence raw, type_col = type_col raw,
           payment_origin = payment_origin raw, psp = psp raw, tm_source = tm_source raw,
           tm_medium = tm_medium raw, tm_campaign = tm_campaign raw,
           consolidated_revenues_ht_euro = consolidated_revenues_ht_euro raw,
           order_date_dt = order1, ECHEANCE_date_dt = echeance2,
           methode_reparation_date = methode3 \<rparr>)"

text \<open>\<^verbatim>\<open>df_grouped.dropna(subset=['order_date', 'ECHEANCE_date'])\<close>\<close>

definition has_both_dates :: "'a subscription_scheme \<Rightarrow> bool" where
  "has_both_dates r \<longleftrightarrow> order_date_dt r \<noteq> None \<and> ECHEANCE_date_dt r \<noteq> None"

definition group_and_repair_data ::
  "(string \<Rightarrow> timestamp option) \<Rightarrow> raw_subscription list \<Rightarrow> tracked_subscription list" where
  "group_and_repair_data parse df_grouped =
     filter has_both_dates (map (repair_row parse) df_grouped)"

text \<open>
  \<^verbatim>\<open>rapport_final.group_and_repair_data\<close>: the same reconstruction and imputation, on the
  date columns themselves and with no column for the method.
\<close>

definition repair_row_rf :: "(string \<Rightarrow> timestamp option) \<Rightarrow> raw_subscription \<Rightarrow> subscription" where
  "repair_row_rf parse raw =
     (let order0 = parse_cell parse (raw_order_date raw);
          echeance0 = parse_cell parse (raw_ECHEANCE_date raw);
          order1 = (if order0 = None
                    then to_datetime_ymd (order_date_annee raw) (order_date_mois raw)
                           (order_date_jour raw)
                    else order0);
          echeance1 = (if echeance0 = None
                       then to_datetime_ymd (ECHEANCE_annee raw) (ECHEANCE_mois raw)
                              (ECHEANCE_jour raw)
                       else echeance0);
          fix = condition_fix_echeance (frequence raw) echeance1 order1;
          echeance2 = (if fix then map_option (plus_days 30) order1 else echeance1)
      in \<lparr> customer_id = customer_id raw, subscription_id = subscription_id raw,
           frequence = frequence raw, type_col = type_col raw,
           payment_origin = payment_origin raw, psp = psp raw, tm_source = tm_source raw,
           tm_medium = tm_medium raw, tm_campaign = tm_campaign raw,
           consolidated_revenues_ht_euro = consolidated_revenues_ht_euro raw,
           order_date_dt = order1, ECHEANCE_date_dt = echeance2 \<rparr>)"

definition group_and_repair_data_rf ::
  "(string \<Rightarrow> timestamp option) \<Rightarrow> raw_subscription list \<Rightarrow> subscription list" where
  "group_and_repair_data_rf parse df_grouped =
     filter has_both_dates (map (repair_row_rf parse) df_grouped)"

text \<open>
  The two date columns as they stand after the reconstruction and before the imputation;
  the two scripts compute them alike.
\<close>

definition order_after_reconstruction ::
  "(string \<Rightarrow> timestamp option) \<Rightarrow> raw_subscription \<Rightarrow> timestamp option" where
  "order_after_reconstruction parse raw =
     (let order0 = parse_cell parse (raw_order_date raw)
      in if order0 = None
         then to_datetime_ymd (order_date_annee raw) (order_date_mois raw) (order_date_jour raw)
         else order0)"

definition echeance_after_reconstruction ::
  "(string \<Rightarrow> timestamp option) \<Rightarrow> raw_subscription \<Rightarrow> timestamp option" where
  "echeance_after_reconstruction parse raw =
     (let echeance0 = parse_cell parse (raw_ECHEANCE_date raw)
      in if echeance0 = None
         then to_datetime_ymd (ECHEANCE_annee raw) (ECHEANCE_mois raw) (ECHEANCE_jour raw)
         else echeance0)"

text \<open>A date a calendar has: the day lies in its month.\<close>

definition valid_date :: "timestamp \<Rightarrow> bool" where
  "valid_date d \<longleftrightarrow> 1 \<le> day d \<and> day d \<le> days_in_month (year d) (month d)"

subsection \<open>Cutting journeys\<close>

text \<open>
  \<^verbatim>\<open>df_sub.sort_values(by=['customer_id', 'order_date'])\<close>: a stable sort on the two
  columns, \<^verbatim>\<open>NaT\<close> after every date.
\<close>

definition date_key :: "timestamp option \<Rightarrow> nat \<times> int \<times> int \<times> int" where
  "date_key d = (case d of None \<Rightarrow> (1, 0, 0, 0) | Some t \<Rightarrow> (0, ts_key t))"

definition sort_values :: "'a subscription_scheme list \<Rightarrow> 'a subscription_scheme list" where
  "sort_values df_sub = sort_key (\<lambda>r. (customer_id r, date_key (order_date_dt r))) df_sub"

text \<open>
  The columns added to \<^verbatim>\<open>df_sorted\<close>. \<open>cumsum_parcours\<close> is the running count
  \<^verbatim>\<open>nouveau_parcours.cumsum()\<close>: over the whole frame in \<^verbatim>\<open>lancer_analyse\<close>, where it is
  the number in \<^verbatim>\<open>id_parcours\<close>, and inside each customer in \<^verbatim>\<open>pipeline_JA\<close>, where it is
  \<^verbatim>\<open>parcours_numero\<close>.
\<close>

record parcours =
  echeance_precedente :: "timestamp option"
  duree_trou_jours :: "int option"
  nouveau_parcours :: bool
  cumsum_parcours :: nat

text \<open>\<^verbatim>\<open>(a - b).dt.days\<close>, \<^verbatim>\<open>NaN\<close> when one of the two is \<^verbatim>\<open>NaT\<close>.\<close>

definition days_between :: "timestamp option \<Rightarrow> timestamp option \<Rightarrow> int option" where
  "days_between a b =
     (case (a, b) of (Some x, Some y) \<Rightarrow> Some (toordinal x - toordinal y) | _ \<Rightarrow> None)"

text \<open>\<^verbatim>\<open>np.where(frequence.str.lower().str.contains('monthly', na=False), 35, 90)\<close>\<close>

definition seuil_churn_jours :: "string option \<Rightarrow> int" where
  "seuil_churn_jours f = (if contains_monthly f then 35 else 90)"

text \<open>\<^verbatim>\<open>duree_trou_jours.isna() | (duree_trou_jours >= seuil)\<close>\<close>

definition gap_starts_journey :: "int option \<Rightarrow> int \<Rightarrow> bool" where
  "gap_starts_journey duree seuil \<longleftrightarrow> (case duree of None \<Rightarrow> True | Some d \<Rightarrow> seuil \<le> d)"

text \<open>
  The four column assignments of \<^verbatim>\<open>lancer_analyse.create_monthly_report\<close> (the same in
  \<^verbatim>\<open>analyse_abo_court\<close> and \<^verbatim>\<open>rapport_final\<close>), row by row down the sorted frame:
  \<^verbatim>\<open>groupby('customer_id')['ECHEANCE_date'].shift(1)\<close> reads the due date of the customer's
  previous row, kept in \<open>last_echeance\<close>, and \<^verbatim>\<open>cumsum\<close> reads the count so far, kept in
  \<open>running\<close>.
\<close>

fun cut_journeys ::
  "(nat \<rightharpoonup> timestamp option) \<Rightarrow> nat \<Rightarrow> 'a subscription_scheme list
     \<Rightarrow> ('a subscription_scheme \<times> parcours) list" where
  "cut_journeys last_echeance running [] = []"
| "cut_journeys last_echeance running (r # rows) =
     (let prec = (case last_echeance (customer_id r) of None \<Rightarrow> None | Some e \<Rightarrow> e);
          duree = days_between (order_date_dt r) prec;
          nouveau = gap_starts_journey duree (seuil_churn_jours (frequence r));
          running' = (if nouveau then running + 1 else running)
      in (r, \<lparr> echeance_precedente = prec, duree_trou_jours = duree,
               nouveau_parcours = nouveau, cumsum_parcours = running' \<rparr>)
         # cut_journeys (last_echeance(customer_id r \<mapsto> ECHEANCE_date_dt r)) running' rows)"

definition df_sorted ::
  "'a subscription_scheme list \<Rightarrow> ('a subscription_scheme \<times> parcours) list" where
  "df_sorted df_sub = cut_journeys Map.empty 0 (sort_values df_sub)"

text \<open>
  \<^verbatim>\<open>customer_id.astype(str) + '_' + nouveau_parcours.cumsum().astype(str)\<close>, kept as the
  pair of numbers the string prints: decimal digits hold no underscore, so two rows have
  the same string exactly when they have the same pair.
\<close>

definition id_parcours :: "'a subscription_scheme \<times> parcours \<Rightarrow> nat \<times> nat" where
  "id_parcours x = (customer_id (fst x), cumsum_parcours (snd x))"

text \<open>
  \<^verbatim>\<open>groupby('id_parcours')['order_date'].transform('min')\<close> for the rows of one journey:
  \<^verbatim>\<open>min\<close> skips \<^verbatim>\<open>NaT\<close>, and is \<^verbatim>\<open>NaT\<close> when nothing is left.
\<close>

definition journey_start_date ::
  "('a subscription_scheme \<times> parcours) list \<Rightarrow> nat \<times> nat \<Rightarrow> timestamp option" where
  "journey_start_date frame i =
     (case List.map_filter (\<lambda>x. if id_parcours x = i then order_date_dt (fst x) else None) frame of
        [] \<Rightarrow> None
      | d # ds \<Rightarrow> Some (ts_min d ds))"

text \<open>
  \<^verbatim>\<open>pipeline_JA.create_monthly_report\<close>, part 3.1: the threshold is 90 days for every
  frequency, and the count runs inside each customer.
\<close>

fun cut_journeys_ja ::
  "(nat \<rightharpoonup> timestamp option) \<Rightarrow> (nat \<Rightarrow> nat) \<Rightarrow> 'a subscription_scheme list
     \<Rightarrow> ('a subscription_scheme \<times> parcours) list" where
  "cut_journeys_ja last_echeance totals [] = []"
| "cut_journeys_ja last_echeance totals (r # rows) =
     (let prec = (case last_echeance (customer_id r) of None \<Rightarrow> None | Some e \<Rightarrow> e);
          duree = days_between (order_date_dt r) prec;
          nouveau = gap_starts_journey duree 90;
          total' = (if nouveau then totals (customer_id r) + 1 else totals (customer_id r))
      in (r, \<lparr> echeance_precedente = prec, duree_trou_jours = duree,
               nouveau_parcours = nouveau, cumsum_parcours = total' \<rparr>)
         # cut_journeys_ja (last_echeance(customer_id r \<mapsto> ECHEANCE_date_dt r))
             (totals(customer_id r := total')) rows)"

definition df_sorted_ja ::
  "'a subscription_scheme list \<Rightarrow> ('a subscription_scheme \<times> parcours) list" where
  "df_sorted_ja df_sub = cut_journeys_ja Map.empty (\<lambda>c. 0) (sort_values df_sub)"

subsection \<open>The monthly report\<close>

text \<open>
  The amount of one month in \<^verbatim>\<open>analyse_abo_court\<close> and \<^verbatim>\<open>lancer_analyse\<close>: it stays \<open>0\<close>
  when the conversion of the revenue raises; \<^verbatim>\<open>'annual'\<close> is tested first.
\<close>

definition montant_mensuel :: "pyfloat option \<Rightarrow> string option \<Rightarrow> pyfloat" where
  "montant_mensuel revenue_cell f =
     (case revenue_cell of
        None \<Rightarrow> Fin 0
      | Some revenue \<Rightarrow>
          (let frequence = frequence_str f
           in if str_contains ''annual'' frequence then divide_by_12 revenue
              else if str_contains ''monthly'' frequence then revenue
              else Fin 0))"

text \<open>The amount of one month in \<^verbatim>\<open>pipeline_JA\<close>, which tests the French words.\<close>

definition montant_mensuel_ja :: "pyfloat option \<Rightarrow> string option \<Rightarrow> pyfloat" where
  "montant_mensuel_ja revenue_cell f =
     (case revenue_cell of
        None \<Rightarrow> Fin 0
      | Some revenue \<Rightarrow>
          (let frequence_str = frequence_str f
           in if str_contains ''annuel'' frequence_str then divide_by_12 revenue
              else if str_contains ''mensuel'' frequence_str then revenue
              else Fin 0))"

text \<open>
  A row of the report: the row of \<^verbatim>\<open>df_sorted\<close> it copies, and the columns \<^verbatim>\<open>month\<close>,
  \<^verbatim>\<open>month_relatif\<close> and \<^verbatim>\<open>Montant\<close>; \<^verbatim>\<open>pipeline_JA\<close> adds \<^verbatim>\<open>is_first_subscription\<close>.
\<close>

record 'a report_row =
  source_row :: 'a
  month_col :: timestamp
  month_relatif :: int
  Montant :: pyfloat

record 'a report_row_ja = "'a report_row" +
  is_first_subscription :: bool

text \<open>
  The body of the loop over \<^verbatim>\<open>df_sorted.itertuples()\<close> in \<^verbatim>\<open>analyse_abo_court\<close>: a row
  with a missing date is skipped; \<^verbatim>\<open>date_range\<close> runs between two first days of a month,
  as the while loop of the main script does. A row with an order date has a
  \<^verbatim>\<open>journey_start_date\<close>, so the third case below never falls through.
\<close>

definition expand_row ::
  "('a subscription_scheme \<times> parcours) list \<Rightarrow> 'a subscription_scheme \<times> parcours
     \<Rightarrow> ('a subscription_scheme \<times> parcours) report_row list" where
  "expand_row frame x =
     (case (order_date_dt (fst x), ECHEANCE_date_dt (fst x), journey_start_date frame (id_parcours x)) of
        (Some ordered, Some echeance, Some started) \<Rightarrow>
          (let start_month = replace_day1 ordered;
               end_month = replace_day1 echeance
           in map (\<lambda>month_date.
                 \<lparr> source_row = x, month_col = month_date,
                   month_relatif = months_diff month_date started,
                   Montant = montant_mensuel (consolidated_revenues_ht_euro (fst x))
                               (frequence (fst x)) \<rparr>)
                (months_loop start_month end_month))
      | _ \<Rightarrow> [])"

definition create_monthly_report ::
  "'a subscription_scheme list \<Rightarrow> ('a subscription_scheme \<times> parcours) report_row list" where
  "create_monthly_report df_sub =
     (let frame = df_sorted df_sub in concat (map (expand_row frame) frame))"

text \<open>
  \<^verbatim>\<open>pd.date_range(start, end, freq='MS')\<close>: the first days of a month from \<open>start\<close> on, so
  a start inside a month moves to the first day of the next one.
\<close>

definition date_range_MS :: "timestamp \<Rightarrow> timestamp \<Rightarrow> timestamp list" where
  "date_range_MS start end_date =
     months_loop (if day start = 1 then start else replace_day1 (next_month start)) end_date"

text \<open>
  The body of the loop in \<^verbatim>\<open>pipeline_JA\<close>: an empty range is replaced by the month of the
  order date, and \<^verbatim>\<open>month_relatif\<close> counts from the row's own order date.
\<close>

definition expand_row_ja ::
  "'a subscription_scheme \<times> parcours \<Rightarrow> ('a subscription_scheme \<times> parcours) report_row_ja list" where
  "expand_row_ja x =
     (case (order_date_dt (fst x), ECHEANCE_date_dt (fst x)) of
        (Some ordered, Some echeance) \<Rightarrow>
          (let date_range = date_range_MS ordered echeance;
               date_range = (if date_range = [] then [replace_day1 ordered] else date_range)
           in map (\<lambda>month_date.
                 \<lparr> source_row = x, month_col = month_date,
                   month_relatif = months_diff month_date ordered,
                   Montant = montant_mensuel_ja (consolidated_revenues_ht_euro (fst x))
                               (frequence (fst x)),
                   is_first_subscription = (cumsum_parcours (snd x) = 1) \<rparr>)
                date_range)
      | _ \<Rightarrow> [])"

definition create_monthly_report_ja ::
  "'a subscription_scheme list \<Rightarrow> ('a subscription_scheme \<times> parcours) report_row_ja list" where
  "create_monthly_report_ja df_sub = concat (map expand_row_ja (df_sorted_ja df_sub))"

section \<open>The dashboard\<close>

text \<open>\<^verbatim>\<open>round(x, 1)\<close>, as \<open>round2\<close> with one decimal.\<close>

definition round1 :: "rat \<Rightarrow> rat" where
  "round1 x =
     (let f = \<lfloor>x * 10\<rfloor>; d = x * 10 - of_int f
      in of_int (if d < 1 / 2 then f else if 1 / 2 < d then f + 1
                 else if even f then f else f + 1) / 10)"

text \<open>
  \<^verbatim>\<open>prepare_segment_evolution_data\<close>, step 4: the value stored for one segment value and one
  month, computed from the exported segment table after its cleaning. \<open>None\<close> is Python's
  \<^verbatim>\<open>None\<close>. The rate is capped at 100 and set to 100 at month 0.
\<close>

definition segment_month_value :: "segment_point list \<Rightarrow> string \<Rightarrow> int \<Rightarrow> rat option" where
  "segment_month_value segment_df value month_rel =
     (let initial_data =
            filter (\<lambda>p. segment_value p = value \<and> mois_relatif_c p = 0) segment_df
      in if initial_data = [] then None
         else
           (let total_initial = sum_list (map clients_initiaux initial_data);
                month_data_seg =
                  filter (\<lambda>p. segment_value p = value \<and> mois_relatif_c p = month_rel) segment_df
            in if month_data_seg = [] then None
               else
                 (let total_active = sum_list (map clients_actifs month_data_seg)
                  in if total_initial > 0
                     then
                       (let retention_rate = (of_nat total_active / of_nat total_initial) * 100;
                            retention_rate = min retention_rate 100;
                            retention_rate = (if month_rel = 0 then 100 else retention_rate)
                        in Some (round1 retention_rate))
                     else None)))"

section \<open>Conditions and sample data\<close>

text \<open>
  Two conditions on the transactions of a frame: the due date is not in a month before
  the order date's month, and both years are written on four digits.
\<close>

definition due_month_not_before_order_month :: "transaction \<Rightarrow> bool" where
  "due_month_not_before_order_month t \<longleftrightarrow>
     month_index (order_date t) \<le> month_index (echeance_date t)"

definition four_digit_years :: "transaction \<Rightarrow> bool" where
  "four_digit_years t \<longleftrightarrow> four_digit_year (order_date t) \<and> four_digit_year (echeance_date t)"

subsection \<open>Sample data\<close>

text \<open>Transactions and timestamps written out for the worked examples below.\<close>

definition ymd :: "int \<Rightarrow> month_of_year \<Rightarrow> int \<Rightarrow> timestamp" where
  "ymd y m d = \<lparr>year = y, month = m, day = d\<rparr>"

definition mk_transaction ::
  "nat \<Rightarrow> nat \<Rightarrow> string \<Rightarrow> timestamp \<Rightarrow> timestamp \<Rightarrow> transaction" where
  "mk_transaction c s f d1 d2 =
     \<lparr> customer_id = c, subscription_id = s, frequence = Some f, type_col = None,
       payment_origin = None, psp = None, tm_source = None, tm_medium = None,
       tm_campaign = None, consolidated_revenues_ht_euro = Some 10,
       order_date = d1, echeance_date = d2 \<rparr>"

text \<open>One customer with two subscriptions that are both active in February 2023.\<close>

definition overlapping_df :: "transaction list" where
  "overlapping_df =
     [mk_transaction 1 100 ''monthly'' (ymd 2023 Jan 15) (ymd 2023 Feb 14),
      mk_transaction 1 200 ''annual'' (ymd 2023 Feb 10) (ymd 2023 Mar 9)]"

text \<open>One customer who comes back sixteen months after the first subscription ended.\<close>

definition gap_df :: "transaction list" where
  "gap_df =
     [mk_transaction 1 100 ''monthly'' (ymd 2023 Jan 15) (ymd 2023 Feb 14),
      mk_transaction 1 200 ''monthly'' (ymd 2024 Jun 3) (ymd 2024 Jul 2)]"

text \<open>A due date ten days before the order date, in the same month; and one two months before.\<close>

definition same_month_tx :: transaction where
  "same_month_tx = mk_transaction 1 100 ''monthly'' (ymd 2023 Jan 20) (ymd 2023 Jan 10)"

definition reversed_tx :: transaction where
  "reversed_tx = mk_transaction 1 100 ''monthly'' (ymd 2023 Mar 5) (ymd 2023 Jan 10)"


text \<open>
  Ten customers with an annual subscription over January and February 2023, and an
  eleventh who starts monthly in January and switches to annual in February.
\<close>

definition switch_df :: "transaction list" where
  "switch_df =
     map (\<lambda>c. mk_transaction c c ''annual'' (ymd 2023 Jan 5) (ymd 2023 Feb 4)) [1..<11]
     @ [mk_transaction 11 11 ''monthly'' (ymd 2023 Jan 5) (ymd 2023 Jan 25),
        mk_transaction 11 12 ''annual'' (ymd 2023 Feb 1) (ymd 2023 Feb 20)]"

definition switch_table :: "monthly_row list" where
  "switch_table = drop_duplicates dedup_key (monthly_data switch_df)"

text \<open>
  Three customers first seen in January 2023; the first transaction of two of them has
  its due date in December 2022, and they are active again in March 2023.
\<close>

definition reversed_df :: "transaction list" where
  "reversed_df =
     [mk_transaction 1 100 ''monthly'' (ymd 2023 Jan 5) (ymd 2023 Jan 25),
      mk_transaction 2 200 ''monthly'' (ymd 2023 Jan 10) (ymd 2022 Dec 20),
      mk_transaction 2 201 ''monthly'' (ymd 2023 Mar 1) (ymd 2023 Mar 20),
      mk_transaction 3 300 ''monthly'' (ymd 2023 Jan 10) (ymd 2022 Dec 20),
      mk_transaction 3 301 ''monthly'' (ymd 2023 Mar 1) (ymd 2023 Mar 20)]"

text \<open>
  A parser that reads one date string, and a subscription as \<^verbatim>\<open>df_grouped\<close> holds it
  before the repair: the order date is written, the due date and the six components are
  missing.
\<close>

definition parse_sample :: "string \<Rightarrow> timestamp option" where
  "parse_sample s = (if s = ''2023-01-15'' then Some (ymd 2023 Jan 15) else None)"

definition mk_raw ::
  "nat \<Rightarrow> nat \<Rightarrow> string option \<Rightarrow> string option \<Rightarrow> string option \<Rightarrow> raw_subscription" where
  "mk_raw c s f d1 d2 =
     \<lparr> customer_id = c, subscription_id = s, frequence = f, type_col = None,
       payment_origin = None, psp = None, tm_source = None, tm_medium = None,
       tm_campaign = None, consolidated_revenues_ht_euro = Some (Fin 10),
       raw_order_date = d1, raw_ECHEANCE_date = d2,
       order_date_annee = None, order_date_mois = None, order_date_jour = None,
       ECHEANCE_annee = None, ECHEANCE_mois = None, ECHEANCE_jour = None \<rparr>"

definition undated_raw :: raw_subscription where
  "undated_raw = mk_raw 1 100 (Some ''Monthly'') (Some ''2023-01-15'') None"

text \<open>
  A subscription row of the pipeline scripts with both dates present, and one whose due
  date is two months before its order date.
\<close>

definition mk_subscription ::
  "nat \<Rightarrow> nat \<Rightarrow> string \<Rightarrow> timestamp \<Rightarrow> timestamp \<Rightarrow> subscription" where
  "mk_subscription c s f d1 d2 =
     \<lparr> customer_id = c, subscription_id = s, frequence = Some f, type_col = None,
       payment_origin = None, psp = None, tm_source = None, tm_medium = None,
       tm_campaign = None, consolidated_revenues_ht_euro = Some (Fin 120),
       order_date_dt = Some d1, ECHEANCE_date_dt = Some d2 \<rparr>"

definition reversed_subscription :: subscription where
  "reversed_subscription = mk_subscription 1 100 ''monthly'' (ymd 2023 Mar 5) (ymd 2023 Jan 10)"

text \<open>
  One customer whose second subscription starts forty days after the first one is due,
  with a monthly and with an annual frequency.
\<close>

definition forty_days_monthly :: "subscription list" where
  "forty_days_monthly =
     [mk_subscription 1 100 ''monthly'' (ymd 2023 Jan 1) (ymd 2023 Jan 31),
      mk_subscription 1 101 ''monthly'' (ymd 2023 Mar 12) (ymd 2023 Apr 11)]"

definition forty_days_annual :: "subscription list" where
  "forty_days_annual =
     [mk_subscription 1 100 ''annual'' (ymd 2023 Jan 1) (ymd 2023 Jan 31),
      mk_subscription 1 101 ''annual'' (ymd 2023 Mar 12) (ymd 2023 Apr 11)]"

text \<open>
  Two customers, out of order in the frame: the first has three subscriptions, the second
  forty days after the first is due and the third one day after the second is due.
\<close>

definition three_subscriptions :: "subscription list" where
  "three_subscriptions =
     [mk_subscription 2 200 ''annual'' (ymd 2023 Feb 1) (ymd 2024 Jan 31),
      mk_subscription 1 101 ''monthly'' (ymd 2023 Mar 12) (ymd 2023 Apr 11),
      mk_subscription 1 100 ''monthly'' (ymd 2023 Jan 1) (ymd 2023 Jan 31),
      mk_subscription 1 102 ''monthly'' (ymd 2023 Apr 12) (ymd 2023 May 11)]"

text \<open>
  Two subscriptions running from 1 January to 28 February 2023 with a revenue of 120, one
  monthly and one annual.
\<close>

definition monthly_subscription :: subscription where
  "monthly_subscription = mk_subscription 1 100 ''monthly'' (ymd 2023 Jan 1) (ymd 2023 Feb 28)"

definition annual_subscription :: subscription where
  "annual_subscription = mk_subscription 2 200 ''Annual'' (ymd 2023 Jan 1) (ymd 2023 Feb 28)"


text \<open>The example of the specification as a subscription row.\<close>

definition mid_month_subscription :: subscription where
  "mid_month_subscription = mk_subscription 1 100 ''monthly'' (ymd 2023 Jan 15) (ymd 2023 Mar 20)"

section \<open>Properties of the main analysis script\<close>

subsection \<open>pandas helpers\<close>

lemma set_unique [simp]: "set (unique xs) = set xs"
  by (simp add: unique_def)

lemma distinct_unique [simp]: "distinct (unique xs)"
  by (simp add: unique_def)

lemma nunique_card: "nunique xs = card (set xs)"
  by (simp add: nunique_def unique_def length_remdups_card_conv)

lemma nunique_eq_0 [simp]: "nunique xs = 0 \<longleftrightarrow> xs = []"
  by (simp add: nunique_card)

subsection \<open>The retention rate at month 0\<close>

lemma round2_100 [simp]: "round2 100 = 100"
  by (simp add: round2_def)

lemma retention_rate_self: "n \<noteq> 0 \<Longrightarrow> retention_rate n n = 100"
  by (simp add: retention_rate_def)

lemma cohort_points_month0:
  "p \<in> set (cohort_points monthly_df c) \<Longrightarrow> mois_relatif_c p = 0 \<Longrightarrow>
     taux_retention p = 100 \<and> clients_actifs p = clients_initiaux p \<and> clients_initiaux p \<noteq> 0"
  by (auto simp: cohort_points_def Let_def retention_rate_self split: if_splits)

lemma cohort_points_has_month0:
  assumes "customers_at 0 (filter (\<lambda>r. date_debut_parcours r = c) monthly_df) \<noteq> 0"
  shows "\<exists>p\<in>set (cohort_points monthly_df c). cohorte p = c \<and> mois_relatif_c p = 0"
proof -
  let ?cd = "filter (\<lambda>r. date_debut_parcours r = c) monthly_df"
  from assms have "filter (\<lambda>r. mois_relatif r = 0) ?cd \<noteq> []"
    by (simp add: customers_at_def)
  then obtain r where "r \<in> set ?cd" "mois_relatif r = 0"
    by (metis (mono_tags, lifting) filter_False)
  then have "0 \<in> set (sort (unique (map mois_relatif ?cd)))"
    by force
  with assms show ?thesis
    by (simp add: cohort_points_def Let_def image_iff)
qed

text \<open>
  Claim C1. Take a cohort (a value of \<^verbatim>\<open>date_debut_parcours\<close>) whose initial population,
  the number of distinct customers with \<^verbatim>\<open>mois_relatif == 0\<close> among its rows, is not zero.
  Then \<^verbatim>\<open>calculate_cohort_retention\<close> returns a frame, the frame holds a point of that
  cohort at relative month 0, and every point at relative month 0 has
  \<^verbatim>\<open>taux_retention\<close> exactly 100, its active count being the initial count. (In the
  script the quotient of a non-zero count by itself is the float 1.0, so the value 100.0
  is exact there as well.)
\<close>

theorem month0_rate_is_100:
  assumes "customers_at 0 (filter (\<lambda>r. date_debut_parcours r = cohort) monthly_df) \<noteq> 0"
  shows "\<exists>pts. calculate_cohort_retention monthly_df = Inr pts
           \<and> (\<exists>p\<in>set pts. cohorte p = cohort \<and> mois_relatif_c p = 0)
           \<and> (\<forall>p\<in>set pts. mois_relatif_c p = 0 \<longrightarrow>
                 taux_retention p = 100 \<and> clients_actifs p = clients_initiaux p)"
proof -
  let ?cd = "filter (\<lambda>r. date_debut_parcours r = cohort) monthly_df"
  from assms have "?cd \<noteq> []"
    by (auto simp: customers_at_def filter_empty_conv)
  then have mem: "cohort \<in> set (unique (map date_debut_parcours monthly_df))"
    by (auto simp: filter_empty_conv)
  from cohort_points_has_month0 [OF assms] obtain p
    where p: "p \<in> set (cohort_points monthly_df cohort)" "cohorte p = cohort" "mois_relatif_c p = 0"
    by blast
  with mem have in_res: "p \<in> set (retention_results monthly_df)"
    unfolding retention_results_def by auto
  then have ne: "retention_results monthly_df \<noteq> []"
    by auto
  have all: "\<forall>q\<in>set (retention_results monthly_df). mois_relatif_c q = 0 \<longrightarrow>
      taux_retention q = 100 \<and> clients_actifs q = clients_initiaux q"
    unfolding retention_results_def using cohort_points_month0 by auto
  show ?thesis
    using ne in_res p all by (auto simp: calculate_cohort_retention_def)
qed

text \<open>A table of one customer active in its first and its second month.\<close>

definition example_row :: "nat \<Rightarrow> string \<Rightarrow> int \<Rightarrow> string \<Rightarrow> monthly_row" where
  "example_row c m k j =
     \<lparr> customer_id = c, subscription_id = 1, frequence = Some ''monthly'', type_col = None,
       payment_origin = None, psp = None, tm_source = None, tm_medium = None,
       tm_campaign = None, consolidated_revenues_ht_euro = Some 10,
       mois = m, mois_relatif = k, date_debut_parcours = j \<rparr>"

theorem month0_rate_is_100_witness:
  "customers_at 0 (filter (\<lambda>r. date_debut_parcours r = ''01/2023'')
       [example_row 7 ''01/2023'' 0 ''01/2023'', example_row 7 ''02/2023'' 1 ''01/2023'']) \<noteq> 0
   \<and> (\<exists>pts. calculate_cohort_retention
          [example_row 7 ''01/2023'' 0 ''01/2023'', example_row 7 ''02/2023'' 1 ''01/2023''] = Inr pts
        \<and> (\<exists>p\<in>set pts. cohorte p = ''01/2023'' \<and> mois_relatif_c p = 0)
        \<and> (\<forall>p\<in>set pts. mois_relatif_c p = 0 \<longrightarrow>
              taux_retention p = 100 \<and> clients_actifs p = clients_initiaux p))"
proof -
  have h: "customers_at 0 (filter (\<lambda>r. date_debut_parcours r = ''01/2023'')
      [example_row 7 ''01/2023'' 0 ''01/2023'', example_row 7 ''02/2023'' 1 ''01/2023'']) \<noteq> 0"
    by (simp add: customers_at_def example_row_def)
  from month0_rate_is_100 [OF h] h show ?thesis
    by blast
qed

subsection \<open>The months one transaction covers\<close>

lemma month_num_bounds: "1 \<le> month_num m" "month_num m \<le> 12"
  by (cases m; simp)+

lemma month_num_inj: "month_num a = month_num b \<Longrightarrow> a = b"
  by (cases a; cases b; simp)

lemma month_index_inj:
  "month_index a = month_index b \<Longrightarrow> year a = year b \<and> month a = month b"
proof -
  assume eq: "month_index a = month_index b"
  have "year a = year b"
    using eq month_num_bounds [of "month a"] month_num_bounds [of "month b"]
    by (simp add: month_index_def)
  with eq show ?thesis
    by (simp add: month_index_def month_num_inj)
qed

lemma months_diff_index: "months_diff cm jsm = month_index cm - month_index jsm"
  by (simp add: months_diff_def month_index_def algebra_simps)

lemma month_index_next [simp]: "month_index (next_month d) = month_index d + 1"
  by (cases "month d") (simp_all add: next_month_def month_index_def)

lemma day_next [simp]: "day (next_month d) = day d"
  by (simp add: next_month_def)

lemma ts_le_index:
  "day a = day b \<Longrightarrow> ts_le a b \<longleftrightarrow> month_index a \<le> month_index b"
  using month_num_bounds [of "month a"] month_num_bounds [of "month b"]
  by (auto simp: ts_le_def ts_key_def month_index_def less_eq_prod_def)

lemma months_loop_index:
  "day s = day e \<Longrightarrow> map month_index (months_loop s e) = [month_index s..month_index e]"
proof (induction s e rule: months_loop.induct)
  case (1 current_month end_month)
  show ?case
  proof (cases "ts_le current_month end_month")
    case True
    with 1 have le: "month_index current_month \<le> month_index end_month"
      by (simp add: ts_le_index)
    from 1 True have "map month_index (months_loop (next_month current_month) end_month)
        = [month_index current_month + 1..month_index end_month]"
      by simp
    with True le show ?thesis
      by (subst months_loop.simps) (simp add: upto_rec1)
  next
    case False
    with 1 have "month_index end_month < month_index current_month"
      by (simp add: ts_le_index)
    with False show ?thesis
      by (subst months_loop.simps) simp
  qed
qed

lemma months_loop_day: "cm \<in> set (months_loop s e) \<Longrightarrow> day cm = day s"
proof (induction s e rule: months_loop.induct)
  case (1 current_month end_month)
  show ?case
  proof (cases "ts_le current_month end_month")
    case True
    with "1.prems" have "cm = current_month \<or> cm \<in> set (months_loop (next_month current_month) end_month)"
      by (subst (asm) months_loop.simps) simp
    with "1.IH" [OF True] show ?thesis by auto
  next
    case False
    with "1.prems" show ?thesis
      by (subst (asm) months_loop.simps) simp
  qed
qed

lemma months_loop_bounds:
  assumes "day s = day e" "cm \<in> set (months_loop s e)"
  shows "month_index s \<le> month_index cm \<and> month_index cm \<le> month_index e"
proof -
  from assms(2) have "month_index cm \<in> set (map month_index (months_loop s e))"
    by simp
  with assms(1) show ?thesis
    by (simp add: months_loop_index)
qed

lemma months_loop_first:
  "ts_le s e \<Longrightarrow> months_loop s e = s # months_loop (next_month s) e"
  by (subst months_loop.simps) simp

subsection \<open>The rows of the monthly table\<close>

lemma ts_min_le: "ts_key (ts_min d ds) \<le> ts_key d \<and> (\<forall>e\<in>set ds. ts_key (ts_min d ds) \<le> ts_key e)"
proof (induction ds arbitrary: d)
  case Nil
  show ?case by simp
next
  case (Cons e es)
  from Cons [of "if ts_lt e d then e else d"] show ?case
    by (auto simp: ts_lt_def)
qed

lemma ts_min_mem: "ts_min d ds \<in> set (d # ds)"
proof (induction ds arbitrary: d)
  case Nil
  show ?case by simp
next
  case (Cons e es)
  from Cons [of "if ts_lt e d then e else d"] show ?case
    by (auto split: if_splits)
qed

lemma journey_start_Some:
  assumes "journey_start customer_data = Some js"
  shows "(\<exists>t0\<in>set customer_data. order_date t0 = js)
       \<and> (\<forall>t\<in>set customer_data. ts_le js (order_date t))"
proof -
  from assms obtain d ds where m: "map order_date customer_data = d # ds" and js: "js = ts_min d ds"
    by (auto simp: journey_start_def split: list.splits)
  have "js \<in> set (map order_date customer_data)"
    unfolding m js by (rule ts_min_mem)
  moreover have "\<forall>e\<in>set (map order_date customer_data). ts_key js \<le> ts_key e"
    unfolding m js using ts_min_le [of d ds] by simp
  ultimately show ?thesis
    by (auto simp: ts_le_def)
qed

lemma journey_start_None: "journey_start customer_data = None \<longleftrightarrow> customer_data = []"
  by (auto simp: journey_start_def split: list.splits)

lemma month_entry_sel [simp]:
  "customer_id (month_entry j t cm) = customer_id t"
  "subscription_id (month_entry j t cm) = subscription_id t"
  "frequence (month_entry j t cm) = frequence t"
  "mois (month_entry j t cm) = strftime_mY cm"
  "mois_relatif (month_entry j t cm) = months_diff cm j"
  "date_debut_parcours (month_entry j t cm) = strftime_mY j"
  by (simp_all add: month_entry_def)

lemma customer_rows_set:
  "set (customer_rows df c) =
     (case journey_start (filter (\<lambda>t. customer_id t = c) df) of
        None \<Rightarrow> {}
      | Some js \<Rightarrow>
          (\<Union>t\<in>{t\<in>set df. customer_id t = c}.
             month_entry (replace_day1 js) t `
               set (months_loop (replace_day1 (order_date t)) (replace_day1 (echeance_date t)))))"
  by (auto simp: customer_rows_def transaction_rows_def Let_def split: option.splits)

lemma customer_rowsD:
  assumes "r \<in> set (customer_rows df c)"
  obtains js t cm where
    "journey_start (filter (\<lambda>t. customer_id t = c) df) = Some js"
    "t \<in> set df" "customer_id t = c"
    "cm \<in> set (months_loop (replace_day1 (order_date t)) (replace_day1 (echeance_date t)))"
    "r = month_entry (replace_day1 js) t cm"
  using assms unfolding customer_rows_set by (auto split: option.splits)

lemma customer_rowsI:
  assumes "journey_start (filter (\<lambda>t. customer_id t = c) df) = Some js"
    "t \<in> set df" "customer_id t = c"
    "cm \<in> set (months_loop (replace_day1 (order_date t)) (replace_day1 (echeance_date t)))"
  shows "month_entry (replace_day1 js) t cm \<in> set (customer_rows df c)"
  using assms unfolding customer_rows_set by auto

lemma monthly_data_set:
  "set (monthly_data df) = (\<Union>c\<in>customer_id ` set df. set (customer_rows df c))"
  by (simp add: monthly_data_def)

lemma monthly_dataD:
  assumes "r \<in> set (monthly_data df)"
  obtains js t cm where
    "journey_start (filter (\<lambda>t. customer_id t = customer_id r) df) = Some js"
    "t \<in> set df" "customer_id t = customer_id r"
    "cm \<in> set (months_loop (replace_day1 (order_date t)) (replace_day1 (echeance_date t)))"
    "r = month_entry (replace_day1 js) t cm"
proof -
  from assms obtain c where "r \<in> set (customer_rows df c)"
    by (auto simp: monthly_data_set)
  then show thesis
    by (elim customer_rowsD) (rule that, simp_all)
qed

lemma monthly_dataI:
  assumes "journey_start (filter (\<lambda>u. customer_id u = customer_id t) df) = Some js"
    "t \<in> set df"
    "cm \<in> set (months_loop (replace_day1 (order_date t)) (replace_day1 (echeance_date t)))"
  shows "month_entry (replace_day1 js) t cm \<in> set (monthly_data df)"
  unfolding monthly_data_set using customer_rowsI [OF assms(1,2) refl assms(3)] assms(2)
  by blast

subsection \<open>Month labels\<close>

lemma digit_char_inj: "digit_char a = digit_char b \<Longrightarrow> a mod 10 = b mod 10"
proof -
  assume eq: "digit_char a = digit_char b"
  have d: "distinct ''0123456789''" by simp
  have l: "a mod 10 < length ''0123456789''" "b mod 10 < length ''0123456789''"
    by simp_all
  from d l eq show ?thesis
    unfolding digit_char_def by (simp only: nth_eq_iff_index_eq)
qed

lemma div_mod_10_eqI:
  fixes a b :: nat
  shows "a div 10 = b div 10 \<Longrightarrow> a mod 10 = b mod 10 \<Longrightarrow> a = b"
proof -
  assume h: "a div 10 = b div 10" "a mod 10 = b mod 10"
  have "a = a div 10 * 10 + a mod 10" by (rule div_mult_mod_eq [symmetric])
  also have "\<dots> = b div 10 * 10 + b mod 10" by (simp only: h)
  also have "\<dots> = b" by (rule div_mult_mod_eq)
  finally show "a = b" .
qed

lemma two_digits_inj:
  fixes a b :: nat
  assumes "a < 100" "b < 100" "(a div 10) mod 10 = (b div 10) mod 10" "a mod 10 = b mod 10"
  shows "a = b"
proof -
  from assms(1,2) have "a div 10 < 10" "b div 10 < 10"
    by simp_all
  with assms(3) have "a div 10 = b div 10"
    by simp
  then show ?thesis
    using assms(4) by (rule div_mod_10_eqI)
qed

lemma four_digits_inj:
  fixes a b :: nat
  assumes "a < 10000" "b < 10000" "(a div 1000) mod 10 = (b div 1000) mod 10"
    "(a div 100) mod 10 = (b div 100) mod 10"
    "(a div 10) mod 10 = (b div 10) mod 10" "a mod 10 = b mod 10"
  shows "a = b"
proof -
  from assms(1,2) have "a div 1000 < 10" "b div 1000 < 10"
    by simp_all
  with assms(3) have "a div 1000 = b div 1000"
    by simp
  then have "a div 100 div 10 = b div 100 div 10"
    by (simp add: div_mult2_eq [symmetric])
  then have "a div 100 = b div 100"
    using assms(4) by (rule div_mod_10_eqI)
  then have "a div 10 div 10 = b div 10 div 10"
    by (simp add: div_mult2_eq [symmetric])
  then have "a div 10 = b div 10"
    using assms(5) by (rule div_mod_10_eqI)
  then show ?thesis
    using assms(6) by (rule div_mod_10_eqI)
qed

lemma strftime_mY_inj:
  assumes "four_digit_year a" "four_digit_year b" "strftime_mY a = strftime_mY b"
  shows "year a = year b \<and> month a = month b"
proof -
  let ?ma = "nat (month_num (month a))" and ?mb = "nat (month_num (month b))"
  let ?ya = "nat (year a)" and ?yb = "nat (year b)"
  from assms(3) have ds:
    "digit_char (?ma div 10) = digit_char (?mb div 10)" "digit_char ?ma = digit_char ?mb"
    "digit_char (?ya div 1000) = digit_char (?yb div 1000)"
    "digit_char (?ya div 100) = digit_char (?yb div 100)"
    "digit_char (?ya div 10) = digit_char (?yb div 10)" "digit_char ?ya = digit_char ?yb"
    by (simp_all add: strftime_mY_def Let_def)
  note m = ds(1,2) [THEN digit_char_inj] and y = ds(3-6) [THEN digit_char_inj]
  have "?ma < 100" "?mb < 100"
    using month_num_bounds [of "month a"] month_num_bounds [of "month b"] by simp_all
  with m have "?ma = ?mb" by (rule two_digits_inj [rotated 2])
  then have mm: "month a = month b"
    using month_num_bounds [of "month a"] month_num_bounds [of "month b"]
    by (intro month_num_inj) simp
  from assms(1,2) have "?ya < 10000" "?yb < 10000"
    unfolding four_digit_year_def by linarith+
  with y have "?ya = ?yb" by (rule four_digits_inj [rotated 2])
  with assms(1,2) have "year a = year b"
    unfolding four_digit_year_def by linarith
  with mm show ?thesis by simp
qed

subsection \<open>Dropping duplicates\<close>

lemma dds_keys:
  "key ` set (drop_duplicates_seen seen key rs) = key ` set rs - set seen"
  by (induction rs arbitrary: seen) auto

lemma dds_distinct: "distinct (map key (drop_duplicates_seen seen key rs))"
  by (induction rs arbitrary: seen) (auto simp: dds_keys)

lemma dds_first:
  "r \<in> set (drop_duplicates_seen seen key rs) \<Longrightarrow>
     key r \<notin> set seen \<and> find (\<lambda>x. key x = key r) rs = Some r"
proof (induction rs arbitrary: seen)
  case Nil
  then show ?case by simp
next
  case (Cons a rs)
  show ?case
  proof (cases "key a \<in> set seen")
    case True
    with Cons.prems have "r \<in> set (drop_duplicates_seen seen key rs)" by simp
    from Cons.IH [OF this] True show ?thesis by auto
  next
    case False
    with Cons.prems consider "r = a" | "r \<in> set (drop_duplicates_seen (key a # seen) key rs)"
      by auto
    then show ?thesis
    proof cases
      case 1
      with False show ?thesis by simp
    next
      case 2
      from Cons.IH [OF this] show ?thesis by auto
    qed
  qed
qed

lemma dds_fixed:
  "distinct (map key rs) \<Longrightarrow> key ` set rs \<inter> set seen = {} \<Longrightarrow>
     drop_duplicates_seen seen key rs = rs"
  by (induction rs arbitrary: seen) auto

lemma dds_subset: "set (drop_duplicates_seen seen key rs) \<subseteq> set rs"
  by (induction rs arbitrary: seen) auto

lemma drop_duplicates_subset: "set (drop_duplicates key rs) \<subseteq> set rs"
  by (simp add: drop_duplicates_def dds_subset)

lemma drop_duplicates_keys: "key ` set (drop_duplicates key rs) = key ` set rs"
  by (simp add: drop_duplicates_def dds_keys)

lemma drop_duplicates_distinct: "distinct (map key (drop_duplicates key rs))"
  by (simp add: drop_duplicates_def dds_distinct)

lemma drop_duplicates_first:
  "r \<in> set (drop_duplicates key rs) \<Longrightarrow> find (\<lambda>x. key x = key r) rs = Some r"
  by (simp add: drop_duplicates_def dds_first)

lemma drop_duplicates_idem:
  "drop_duplicates key (drop_duplicates key rs) = drop_duplicates key rs"
proof -
  have "drop_duplicates_seen [] key (drop_duplicates_seen [] key rs) = drop_duplicates_seen [] key rs"
    by (rule dds_fixed) (simp_all add: dds_distinct)
  then show ?thesis
    by (simp add: drop_duplicates_def)
qed

lemma find_append:
  "find P (xs @ ys) = (case find P xs of None \<Rightarrow> find P ys | Some x \<Rightarrow> Some x)"
  by (induction xs) simp_all

lemma find_concat_Some:
  "find P (concat xss) = Some r \<Longrightarrow>
     \<exists>as xs bs. xss = as @ xs # bs \<and> find P xs = Some r \<and> (\<forall>ys\<in>set as. \<forall>y\<in>set ys. \<not> P y)"
proof (induction xss)
  case Nil
  then show ?case by simp
next
  case (Cons xs xss)
  show ?case
  proof (cases "find P xs")
    case None
    with Cons.prems have "find P (concat xss) = Some r"
      by (simp add: find_append)
    from Cons.IH [OF this] obtain as ys bs
      where h: "xss = as @ ys # bs" "find P ys = Some r" "\<forall>zs\<in>set as. \<forall>z\<in>set zs. \<not> P z"
      by blast
    from None have "\<forall>y\<in>set xs. \<not> P y"
      by (simp add: find_None_iff)
    with h have "xs # xss = (xs # as) @ ys # bs \<and> find P ys = Some r
        \<and> (\<forall>zs\<in>set (xs # as). \<forall>z\<in>set zs. \<not> P z)"
      by simp
    then show ?thesis by blast
  next
    case (Some a)
    with Cons.prems have "find P xs = Some r"
      by (simp add: find_append)
    then have "xs # xss = [] @ xs # xss \<and> find P xs = Some r
        \<and> (\<forall>zs\<in>set []. \<forall>z\<in>set zs. \<not> P z)"
      by simp
    then show ?thesis by blast
  qed
qed

lemma filter_eq_append_ConsD:
  "filter P xs = as @ x # bs \<Longrightarrow>
     \<exists>us vs. xs = us @ x # vs \<and> filter P us = as \<and> filter P vs = bs"
proof (induction xs arbitrary: as)
  case Nil
  then show ?case by simp
next
  case (Cons a xs)
  show ?case
  proof (cases "P a")
    case False
    with Cons.prems have "filter P xs = as @ x # bs" by simp
    from Cons.IH [OF this] obtain us vs
      where "xs = us @ x # vs" "filter P us = as" "filter P vs = bs" by blast
    with False have "a # xs = (a # us) @ x # vs \<and> filter P (a # us) = as \<and> filter P vs = bs"
      by simp
    then show ?thesis by blast
  next
    case True
    show ?thesis
    proof (cases as)
      case Nil
      with True Cons.prems have "a # xs = [] @ x # xs \<and> filter P [] = as \<and> filter P xs = bs"
        by simp
      then show ?thesis by blast
    next
      case (Cons a' as')
      with True Cons.prems have "a' = a" "filter P xs = as' @ x # bs" by simp_all
      from Cons.IH [OF this(2)] obtain us vs
        where "xs = us @ x # vs" "filter P us = as'" "filter P vs = bs" by blast
      with True Cons \<open>a' = a\<close>
      have "a # xs = (a # us) @ x # vs \<and> filter P (a # us) = as \<and> filter P vs = bs"
        by simp
      then show ?thesis by blast
    qed
  qed
qed

lemma transaction_rows_customer:
  "y \<in> set (transaction_rows j u) \<Longrightarrow> customer_id y = customer_id u"
  by (auto simp: transaction_rows_def Let_def)

lemma customer_rows_customer: "y \<in> set (customer_rows df c) \<Longrightarrow> customer_id y = c"
  by (erule customer_rowsD) simp

lemma map_eq_append_ConsD:
  "map f xs = as @ y # bs \<Longrightarrow>
     \<exists>us x vs. xs = us @ x # vs \<and> as = map f us \<and> y = f x \<and> bs = map f vs"
  by (auto simp: map_eq_append_conv map_eq_Cons_conv)

lemma find_SomeD: "find P ys = Some r \<Longrightarrow> r \<in> set ys \<and> P r"
  by (auto simp: find_Some_iff)

lemma customer_rows_concat:
  "journey_start (filter (\<lambda>u. customer_id u = c) df) = Some js \<Longrightarrow>
     customer_rows df c =
       concat (map (transaction_rows (replace_day1 js)) (filter (\<lambda>u. customer_id u = c) df))"
  by (simp add: customer_rows_def)

lemma customer_rows_journey:
  "r \<in> set (customer_rows df c) \<Longrightarrow>
     \<exists>js. journey_start (filter (\<lambda>u. customer_id u = c) df) = Some js"
  by (auto elim: customer_rowsD)

lemma monthly_data_find_order:
  assumes "find (\<lambda>x. dedup_key x = dedup_key r) (monthly_data df) = Some r"
  shows "\<exists>pre t post js. df = pre @ t # post \<and> customer_id t = customer_id r
      \<and> journey_start (filter (\<lambda>u. customer_id u = customer_id r) df) = Some js
      \<and> r \<in> set (transaction_rows (replace_day1 js) t)
      \<and> (\<forall>u\<in>set pre. customer_id u = customer_id r \<longrightarrow>
            mois r \<notin> mois ` set (transaction_rows (replace_day1 js) u))"
proof -
  let ?P = "\<lambda>x. dedup_key x = dedup_key r"
  from assms have "find ?P (concat (map (customer_rows df) (unique (map customer_id df)))) = Some r"
    by (simp only: monthly_data_def)
  from find_concat_Some [OF this] obtain as xs bs
    where m: "map (customer_rows df) (unique (map customer_id df)) = as @ xs # bs"
      and fx: "find ?P xs = Some r"
    by blast
  from map_eq_append_ConsD [OF m] obtain c where xs: "xs = customer_rows df c"
    by blast
  from find_SomeD [OF fx] have rin: "r \<in> set xs" ..
  with xs have c: "customer_id r = c"
    by (simp only: customer_rows_customer)
  let ?cd = "filter (\<lambda>u. customer_id u = c) df"
  from rin xs customer_rows_journey [of r df c] obtain js where js: "journey_start ?cd = Some js"
    by blast
  let ?j = "replace_day1 js"
  from fx have "find ?P (concat (map (transaction_rows ?j) ?cd)) = Some r"
    unfolding xs customer_rows_concat [OF js] .
  from find_concat_Some [OF this] obtain as' ys bs'
    where dec: "map (transaction_rows ?j) ?cd = as' @ ys # bs'"
      and fy: "find ?P ys = Some r"
      and no: "\<forall>zs\<in>set as'. \<forall>z\<in>set zs. \<not> ?P z"
    by blast
  from map_eq_append_ConsD [OF dec] obtain ta t tb where cd: "?cd = ta @ t # tb"
      and as': "as' = map (transaction_rows ?j) ta" and ys: "ys = transaction_rows ?j t"
    by blast
  from filter_eq_append_ConsD [OF cd] obtain pre post
    where df: "df = pre @ t # post" and pre: "filter (\<lambda>u. customer_id u = c) pre = ta"
    by blast
  have "t \<in> set ?cd"
    unfolding cd by simp
  then have tc: "customer_id t = c"
    by simp
  from find_SomeD [OF fy] ys have rt: "r \<in> set (transaction_rows ?j t)"
    by simp
  have nomois: "mois r \<notin> mois ` set (transaction_rows ?j u)"
    if u: "u \<in> set pre" "customer_id u = c" for u
  proof
    assume "mois r \<in> mois ` set (transaction_rows ?j u)"
    then obtain y where y: "y \<in> set (transaction_rows ?j u)" "mois y = mois r"
      by auto
    from u have "u \<in> set (filter (\<lambda>u. customer_id u = c) pre)"
      by simp
    then have "u \<in> set ta"
      unfolding pre .
    with as' have "transaction_rows ?j u \<in> set as'"
      by simp
    with no y(1) have "dedup_key y \<noteq> dedup_key r"
      by blast
    moreover from y(1) u(2) c have "customer_id y = customer_id r"
      by (simp add: transaction_rows_customer)
    ultimately show False
      using y(2) by (simp add: dedup_key_def)
  qed
  show ?thesis
  proof (intro exI conjI ballI impI)
    show "df = pre @ t # post" by (rule df)
    show "customer_id t = customer_id r" using tc c by simp
    show "journey_start (filter (\<lambda>u. customer_id u = customer_id r) df) = Some js"
      using js c by simp
    show "r \<in> set (transaction_rows ?j t)" by (rule rt)
    show "mois r \<notin> mois ` set (transaction_rows ?j u)"
      if "u \<in> set pre" "customer_id u = customer_id r" for u
      using nomois [of u] that c by simp
  qed
qed

text \<open>Unfolding rules that evaluate the table of a concrete frame.\<close>

lemmas eval_simps =
  monthly_data_def customer_rows_def transaction_rows_def journey_start_def
  mk_transaction_def ymd_def unique_def replace_day1_def ts_le_def ts_lt_def ts_key_def
  next_month_def month_entry_def strftime_mY_def digit_char_def months_diff_def
  drop_duplicates_def dedup_key_def Let_def
  months_loop.simps [of "\<lparr>year = y, month = m, day = d\<rparr>" for y m d]

lemma overlapping_rows:
  "map (\<lambda>r. (customer_id r, subscription_id r, mois r, mois_relatif r)) (monthly_data overlapping_df)
     = [(1, 100, ''01/2023'', 0), (1, 100, ''02/2023'', 1),
        (1, 200, ''02/2023'', 1), (1, 200, ''03/2023'', 2)]"
  by (simp add: overlapping_df_def eval_simps)

lemma overlapping_table:
  "map (\<lambda>r. (customer_id r, subscription_id r, mois r, mois_relatif r))
       (drop_duplicates dedup_key (monthly_data overlapping_df))
     = [(1, 100, ''01/2023'', 0), (1, 100, ''02/2023'', 1), (1, 200, ''03/2023'', 2)]"
  by (simp add: overlapping_df_def eval_simps)

text \<open>
  Claim C5. When \<^verbatim>\<open>create_monthly_retention_table\<close> returns a table, the table has at most
  one row for each pair of customer and month label, and exactly the pairs of the expanded
  list \<^verbatim>\<open>monthly_data\<close>. The row kept for a pair is the first one of \<^verbatim>\<open>monthly_data\<close>
  with that pair; it comes from a transaction \<open>t\<close> of the customer such that no
  transaction of the same customer placed before \<open>t\<close> in the frame covers that month.
  Dropping duplicates a second time changes nothing, and since the table is a function of
  the frame, a second run on the same frame gives the same rows.
\<close>

theorem dedup_keeps_first:
  assumes "create_monthly_retention_table df = Inr monthly_df"
  shows "distinct (map dedup_key monthly_df)
     \<and> dedup_key ` set monthly_df = dedup_key ` set (monthly_data df)
     \<and> (\<forall>r\<in>set monthly_df.
          find (\<lambda>x. dedup_key x = dedup_key r) (monthly_data df) = Some r
          \<and> (\<exists>pre t post js. df = pre @ t # post \<and> customer_id t = customer_id r
              \<and> journey_start (filter (\<lambda>u. customer_id u = customer_id r) df) = Some js
              \<and> r \<in> set (transaction_rows (replace_day1 js) t)
              \<and> (\<forall>u\<in>set pre. customer_id u = customer_id r \<longrightarrow>
                    mois r \<notin> mois ` set (transaction_rows (replace_day1 js) u))))
     \<and> drop_duplicates dedup_key monthly_df = monthly_df"
proof -
  from assms have eq: "monthly_df = drop_duplicates dedup_key (monthly_data df)"
    by (simp add: create_monthly_retention_table_def split: if_splits)
  have 1: "distinct (map dedup_key monthly_df)"
    unfolding eq by (rule drop_duplicates_distinct)
  have 2: "dedup_key ` set monthly_df = dedup_key ` set (monthly_data df)"
    unfolding eq by (rule drop_duplicates_keys)
  have 3: "find (\<lambda>x. dedup_key x = dedup_key r) (monthly_data df) = Some r"
    if "r \<in> set monthly_df" for r
    using that unfolding eq by (rule drop_duplicates_first)
  have 4: "drop_duplicates dedup_key monthly_df = monthly_df"
    unfolding eq by (rule drop_duplicates_idem)
  from 1 2 3 4 monthly_data_find_order show ?thesis
    by blast
qed

theorem dedup_keeps_first_witness:
  "create_monthly_retention_table overlapping_df
     = Inr (drop_duplicates dedup_key (monthly_data overlapping_df))
   \<and> map (\<lambda>r. (customer_id r, subscription_id r, mois r, mois_relatif r))
        (drop_duplicates dedup_key (monthly_data overlapping_df))
     = [(1, 100, ''01/2023'', 0), (1, 100, ''02/2023'', 1), (1, 200, ''03/2023'', 2)]
   \<and> distinct (map dedup_key (drop_duplicates dedup_key (monthly_data overlapping_df)))
   \<and> drop_duplicates dedup_key (drop_duplicates dedup_key (monthly_data overlapping_df))
     = drop_duplicates dedup_key (monthly_data overlapping_df)"
proof -
  have "monthly_data overlapping_df \<noteq> []"
    using overlapping_rows by auto
  then have h: "create_monthly_retention_table overlapping_df
      = Inr (drop_duplicates dedup_key (monthly_data overlapping_df))"
    by (simp add: create_monthly_retention_table_def)
  from dedup_keeps_first [OF h] h overlapping_table show ?thesis
    by blast
qed

subsection \<open>One journey per customer\<close>

lemma ts_le_month_index: "ts_le a b \<Longrightarrow> month_index a \<le> month_index b"
  using month_num_bounds [of "month a"] month_num_bounds [of "month b"]
  by (auto simp: ts_le_def ts_key_def month_index_def less_eq_prod_def)

lemma month_index_replace_day1 [simp]: "month_index (replace_day1 d) = month_index d"
  by (simp add: month_index_def replace_day1_def)

lemma day_replace_day1 [simp]: "day (replace_day1 d) = 1"
  by (simp add: replace_day1_def)

lemma year_month_replace_day1 [simp]:
  "year (replace_day1 d) = year d" "month (replace_day1 d) = month d"
  by (simp_all add: replace_day1_def)

lemma strftime_replace_day1 [simp]: "strftime_mY (replace_day1 d) = strftime_mY d"
  by (simp add: strftime_mY_def)

lemma months_diff_replace_day1 [simp]: "months_diff cm (replace_day1 d) = months_diff cm d"
  by (simp add: months_diff_def)

lemma transaction_months_bounds:
  assumes "cm \<in> set (months_loop (replace_day1 (order_date t)) (replace_day1 (echeance_date t)))"
  shows "day cm = 1 \<and> month_index (order_date t) \<le> month_index cm
       \<and> month_index cm \<le> month_index (echeance_date t)"
  using months_loop_bounds [OF _ assms] months_loop_day [OF assms] by simp

lemma months_diff_zero_iff:
  "months_diff cm j = 0 \<longleftrightarrow> year cm = year j \<and> month cm = month j"
proof
  assume "months_diff cm j = 0"
  then have "month_index cm = month_index j"
    by (simp add: months_diff_index)
  then show "year cm = year j \<and> month cm = month j"
    by (rule month_index_inj)
next
  assume "year cm = year j \<and> month cm = month j"
  then show "months_diff cm j = 0"
    by (simp add: months_diff_def)
qed

text \<open>What is known of any row of the expanded list.\<close>

lemma monthly_data_row:
  assumes "r \<in> set (monthly_data df)"
  shows "\<exists>js t0 t cm.
      journey_start (filter (\<lambda>u. customer_id u = customer_id r) df) = Some js
    \<and> t0 \<in> set df \<and> customer_id t0 = customer_id r \<and> order_date t0 = js
    \<and> (\<forall>u\<in>set df. customer_id u = customer_id r \<longrightarrow> ts_le js (order_date u))
    \<and> t \<in> set df \<and> customer_id t = customer_id r
    \<and> cm \<in> set (months_loop (replace_day1 (order_date t)) (replace_day1 (echeance_date t)))
    \<and> r = month_entry (replace_day1 js) t cm"
proof -
  from assms obtain js t cm where
    js: "journey_start (filter (\<lambda>u. customer_id u = customer_id r) df) = Some js"
    and t: "t \<in> set df" "customer_id t = customer_id r"
    and cm: "cm \<in> set (months_loop (replace_day1 (order_date t)) (replace_day1 (echeance_date t)))"
    and r: "r = month_entry (replace_day1 js) t cm"
    by (rule monthly_dataD)
  from journey_start_Some [OF js] obtain t0
    where t0: "t0 \<in> set df" "customer_id t0 = customer_id r" "order_date t0 = js"
      and le: "\<forall>u\<in>set df. customer_id u = customer_id r \<longrightarrow> ts_le js (order_date u)"
    by auto
  show ?thesis
    using js t0 le t cm r by blast
qed

lemma gap_table:
  "map (\<lambda>r. (mois r, mois_relatif r, date_debut_parcours r))
       (drop_duplicates dedup_key (monthly_data gap_df))
     = [(''01/2023'', 0, ''01/2023''), (''02/2023'', 1, ''01/2023''),
        (''06/2024'', 17, ''01/2023''), (''07/2024'', 18, ''01/2023'')]"
  by (simp add: gap_df_def eval_simps)

text \<open>
  Claim C10. Take any row \<open>r\<close> of the table \<^verbatim>\<open>create_monthly_retention_table\<close> returns.
  The journey start \<open>js\<close> of its customer is the order date of one of the customer's
  transactions and is not later than the order date of any of them; the row's
  \<^verbatim>\<open>date_debut_parcours\<close> is the label of the month of \<open>js\<close>; the row stands for a month
  \<open>cm\<close> that one of the customer's transactions covers, and its \<^verbatim>\<open>mois_relatif\<close> is
  \<open>(cm.year - js.year) * 12 + (cm.month - js.month)\<close>, which is never negative and is 0
  only when \<open>cm\<close> is the month of \<open>js\<close> itself. All rows of one customer carry the same
  \<^verbatim>\<open>date_debut_parcours\<close>: no gap between transactions starts a second journey.
\<close>

theorem single_journey_per_customer:
  assumes "create_monthly_retention_table df = Inr monthly_df" and "r \<in> set monthly_df"
  shows "(\<exists>js t0 t cm.
        journey_start (filter (\<lambda>u. customer_id u = customer_id r) df) = Some js
      \<and> t0 \<in> set df \<and> customer_id t0 = customer_id r \<and> order_date t0 = js
      \<and> (\<forall>u\<in>set df. customer_id u = customer_id r \<longrightarrow> ts_le js (order_date u))
      \<and> date_debut_parcours r = strftime_mY (replace_day1 js)
      \<and> t \<in> set df \<and> customer_id t = customer_id r
      \<and> cm \<in> set (months_loop (replace_day1 (order_date t)) (replace_day1 (echeance_date t)))
      \<and> mois r = strftime_mY cm
      \<and> mois_relatif r
          = (year cm - year js) * 12 + (month_num (month cm) - month_num (month js))
      \<and> 0 \<le> mois_relatif r
      \<and> (mois_relatif r = 0 \<longleftrightarrow> year cm = year js \<and> month cm = month js))
    \<and> (\<forall>r'\<in>set monthly_df. customer_id r' = customer_id r \<longrightarrow>
          date_debut_parcours r' = date_debut_parcours r)"
proof -
  from assms(1) have eq: "monthly_df = drop_duplicates dedup_key (monthly_data df)"
    by (simp add: create_monthly_retention_table_def split: if_splits)
  have sub: "x \<in> set (monthly_data df)" if "x \<in> set monthly_df" for x
    using that drop_duplicates_subset [of dedup_key "monthly_data df"] unfolding eq by blast
  from monthly_data_row [OF sub [OF assms(2)]] obtain js t0 t cm where
    js: "journey_start (filter (\<lambda>u. customer_id u = customer_id r) df) = Some js"
    and t0: "t0 \<in> set df" "customer_id t0 = customer_id r" "order_date t0 = js"
    and le: "\<forall>u\<in>set df. customer_id u = customer_id r \<longrightarrow> ts_le js (order_date u)"
    and t: "t \<in> set df" "customer_id t = customer_id r"
    and cm: "cm \<in> set (months_loop (replace_day1 (order_date t)) (replace_day1 (echeance_date t)))"
    and r: "r = month_entry (replace_day1 js) t cm"
    by blast
  from le t have "ts_le js (order_date t)"
    by blast
  then have "month_index js \<le> month_index (order_date t)"
    by (rule ts_le_month_index)
  with transaction_months_bounds [OF cm] have nonneg: "0 \<le> months_diff cm js"
    by (simp add: months_diff_index)
  have rel: "mois_relatif r = months_diff cm js" "mois r = strftime_mY cm"
    "date_debut_parcours r = strftime_mY (replace_day1 js)"
    unfolding r by simp_all
  have same: "date_debut_parcours r' = date_debut_parcours r"
    if r': "r' \<in> set monthly_df" "customer_id r' = customer_id r" for r'
  proof -
    from monthly_data_row [OF sub [OF r'(1)]] obtain js' t' cm' where
      "journey_start (filter (\<lambda>u. customer_id u = customer_id r') df) = Some js'"
      "r' = month_entry (replace_day1 js') t' cm'"
      by blast
    with js r'(2) have "js' = js" "date_debut_parcours r' = strftime_mY (replace_day1 js')"
      by simp_all
    with rel(3) show ?thesis
      by simp
  qed
  have first: "\<exists>js t0 t cm.
        journey_start (filter (\<lambda>u. customer_id u = customer_id r) df) = Some js
      \<and> t0 \<in> set df \<and> customer_id t0 = customer_id r \<and> order_date t0 = js
      \<and> (\<forall>u\<in>set df. customer_id u = customer_id r \<longrightarrow> ts_le js (order_date u))
      \<and> date_debut_parcours r = strftime_mY (replace_day1 js)
      \<and> t \<in> set df \<and> customer_id t = customer_id r
      \<and> cm \<in> set (months_loop (replace_day1 (order_date t)) (replace_day1 (echeance_date t)))
      \<and> mois r = strftime_mY cm
      \<and> mois_relatif r
          = (year cm - year js) * 12 + (month_num (month cm) - month_num (month js))
      \<and> 0 \<le> mois_relatif r
      \<and> (mois_relatif r = 0 \<longleftrightarrow> year cm = year js \<and> month cm = month js)"
    apply (rule exI [of _ js], rule exI [of _ t0], rule exI [of _ t], rule exI [of _ cm])
    using js t0 le t cm rel nonneg months_diff_zero_iff [of cm js]
    by (simp add: months_diff_def)
  from first same show ?thesis
    by blast
qed

text \<open>
  Sixteen months lie between the two subscriptions of the sample customer; the third row of
  the table is the first month of the second subscription, and its index is 17, not 0.
\<close>

theorem single_journey_per_customer_witness:
  "create_monthly_retention_table gap_df = Inr (drop_duplicates dedup_key (monthly_data gap_df))
   \<and> drop_duplicates dedup_key (monthly_data gap_df) ! 2
       \<in> set (drop_duplicates dedup_key (monthly_data gap_df))
   \<and> map (\<lambda>r. (mois r, mois_relatif r, date_debut_parcours r))
        (drop_duplicates dedup_key (monthly_data gap_df))
     = [(''01/2023'', 0, ''01/2023''), (''02/2023'', 1, ''01/2023''),
        (''06/2024'', 17, ''01/2023''), (''07/2024'', 18, ''01/2023'')]
   \<and> (\<exists>js t0. journey_start
          (filter (\<lambda>u. customer_id u
                 = customer_id (drop_duplicates dedup_key (monthly_data gap_df) ! 2)) gap_df)
          = Some js
        \<and> t0 \<in> set gap_df \<and> order_date t0 = js
        \<and> date_debut_parcours (drop_duplicates dedup_key (monthly_data gap_df) ! 2)
            = strftime_mY (replace_day1 js))"
proof -
  let ?tbl = "drop_duplicates dedup_key (monthly_data gap_df)"
  have "length (map (\<lambda>r. (mois r, mois_relatif r, date_debut_parcours r)) ?tbl) = 4"
    unfolding gap_table by simp
  then have len: "length ?tbl = 4"
    by simp
  then have mem: "?tbl ! 2 \<in> set ?tbl"
    by simp
  from len have "monthly_data gap_df \<noteq> []"
    by (auto simp: drop_duplicates_def)
  then have h: "create_monthly_retention_table gap_df = Inr ?tbl"
    by (simp add: create_monthly_retention_table_def)
  from single_journey_per_customer [OF h mem] h mem gap_table show ?thesis
    by blast
qed

subsection \<open>The rows of one transaction\<close>

lemma months_loop_single:
  assumes "day s = day e" "month_index s = month_index e"
  shows "months_loop s e = [s]"
proof -
  have "ts_le s e"
    using assms by (simp add: ts_le_index)
  then have "months_loop s e = s # months_loop (next_month s) e"
    by (rule months_loop_first)
  moreover have "\<not> ts_le (next_month s) e"
    using assms by (simp add: ts_le_index)
  then have "months_loop (next_month s) e = []"
    by (subst months_loop.simps) simp
  ultimately show ?thesis
    by simp
qed

lemma ts_lt_imp_le: "ts_lt a b \<Longrightarrow> ts_le a b"
  by (simp add: ts_lt_def ts_le_def)

lemma date_range_MS_reversed:
  assumes "ts_lt end_date start"
  shows "date_range_MS start end_date = []"
proof -
  let ?first = "if day start = 1 then start else replace_day1 (next_month start)"
  have "\<not> ts_le ?first end_date"
  proof (cases "day start = 1")
    case True
    with assms show ?thesis
      by (simp add: ts_lt_def ts_le_def not_le)
  next
    case False
    have "month_index end_date \<le> month_index start"
      using assms by (intro ts_le_month_index ts_lt_imp_le)
    then have "\<not> month_index (replace_day1 (next_month start)) \<le> month_index end_date"
      by simp
    then have "\<not> ts_le (replace_day1 (next_month start)) end_date"
      using ts_le_month_index by blast
    with False show ?thesis
      by simp
  qed
  then show ?thesis
    unfolding date_range_MS_def by (subst months_loop.simps) simp
qed

lemma expand_row_ja_reversed:
  assumes "order_date_dt (fst x) = Some ordered" "ECHEANCE_date_dt (fst x) = Some echeance"
    "ts_lt echeance ordered"
  shows "\<exists>row. expand_row_ja x = [row] \<and> source_row row = x
           \<and> month_col row = replace_day1 ordered \<and> month_relatif row = 0"
  using assms
  by (simp add: expand_row_ja_def date_range_MS_reversed Let_def months_diff_def)

lemma reversed_subscription_frame:
  "map fst (df_sorted_ja [reversed_subscription]) = [reversed_subscription]"
  by (simp add: df_sorted_ja_def sort_values_def Let_def)

lemma reversed_subscription_dates:
  "order_date_dt reversed_subscription = Some (ymd 2023 Mar 5)"
  "ECHEANCE_date_dt reversed_subscription = Some (ymd 2023 Jan 10)"
  "ts_lt (ymd 2023 Jan 10) (ymd 2023 Mar 5)"
  by (simp_all add: reversed_subscription_def mk_subscription_def ymd_def ts_lt_def ts_key_def
      less_prod_def)

text \<open>
  Claim C6, as the code has it. The main script compares months, not dates: both dates are
  set to the first of their month before the loop. A transaction contributes no row exactly
  when the month of its due date is before the month of its order date; when the two dates
  lie in the same month, whichever comes first, it contributes exactly the row of that
  month. \<^verbatim>\<open>pipeline_JA\<close> never returns an empty sequence for a dated subscription: when the
  due date precedes the order date the range of month starts is empty and is replaced by
  the month of the order date, so the subscription contributes exactly one row, for that
  month, at relative index 0.
\<close>

theorem due_before_start_rows:
  "(transaction_rows journey_start_month t = []
      \<longleftrightarrow> month_index (echeance_date t) < month_index (order_date t))
   \<and> (month_index (echeance_date t) = month_index (order_date t)
        \<longrightarrow> transaction_rows journey_start_month t
              = [month_entry journey_start_month t (replace_day1 (order_date t))])
   \<and> (\<forall>ordered echeance.
         order_date_dt (fst x) = Some ordered \<and> ECHEANCE_date_dt (fst x) = Some echeance
         \<and> ts_lt echeance ordered
         \<longrightarrow> (\<exists>row. expand_row_ja x = [row] \<and> source_row row = x
                \<and> month_col row = replace_day1 ordered \<and> month_relatif row = 0))"
proof -
  have "map month_index (months_loop (replace_day1 (order_date t)) (replace_day1 (echeance_date t)))
      = [month_index (order_date t)..month_index (echeance_date t)]"
    using months_loop_index [of "replace_day1 (order_date t)" "replace_day1 (echeance_date t)"]
    by simp
  then have "months_loop (replace_day1 (order_date t)) (replace_day1 (echeance_date t)) = []
      \<longleftrightarrow> month_index (echeance_date t) < month_index (order_date t)"
    by (metis map_is_Nil_conv upto_Nil)
  then have a: "transaction_rows journey_start_month t = []
      \<longleftrightarrow> month_index (echeance_date t) < month_index (order_date t)"
    by (simp add: transaction_rows_def Let_def)
  have b: "transaction_rows journey_start_month t
              = [month_entry journey_start_month t (replace_day1 (order_date t))]"
    if "month_index (echeance_date t) = month_index (order_date t)"
    using that
      months_loop_single [of "replace_day1 (order_date t)" "replace_day1 (echeance_date t)"]
    by (simp add: transaction_rows_def Let_def)
  from a b expand_row_ja_reversed [of x] show ?thesis
    by blast
qed

theorem due_before_start_rows_witness:
  "transaction_rows (ymd 2023 Mar 1) reversed_tx = []
   \<and> map (\<lambda>r. (mois r, mois_relatif r)) (transaction_rows (ymd 2023 Jan 1) same_month_tx)
       = [(''01/2023'', 0)]
   \<and> (\<exists>row. create_monthly_report_ja [reversed_subscription] = [row]
         \<and> month_col row = ymd 2023 Mar 1 \<and> month_relatif row = 0)"
proof -
  define x where "x = hd (df_sorted_ja [reversed_subscription])"
  have fr: "df_sorted_ja [reversed_subscription] = [x]"
    by (simp add: x_def df_sorted_ja_def sort_values_def Let_def)
  have fx: "fst x = reversed_subscription"
    by (simp add: x_def df_sorted_ja_def sort_values_def Let_def)
  have i1: "month_index (echeance_date reversed_tx) < month_index (order_date reversed_tx)"
    by (simp add: reversed_tx_def mk_transaction_def ymd_def month_index_def)
  have i2: "month_index (echeance_date same_month_tx) = month_index (order_date same_month_tx)"
    by (simp add: same_month_tx_def mk_transaction_def ymd_def month_index_def)
  have e: "map (\<lambda>r. (mois r, mois_relatif r))
      [month_entry (ymd 2023 Jan 1) same_month_tx (replace_day1 (order_date same_month_tx))]
       = [(''01/2023'', 0)]"
    by (simp add: same_month_tx_def eval_simps)
  have d: "replace_day1 (ymd 2023 Mar 5) = ymd 2023 Mar 1"
    by (simp add: replace_day1_def ymd_def)
  have c: "create_monthly_report_ja [reversed_subscription] = expand_row_ja x"
    by (simp add: create_monthly_report_ja_def fr)
  have h: "order_date_dt (fst x) = Some (ymd 2023 Mar 5)
      \<and> ECHEANCE_date_dt (fst x) = Some (ymd 2023 Jan 10)
      \<and> ts_lt (ymd 2023 Jan 10) (ymd 2023 Mar 5)"
    unfolding fx using reversed_subscription_dates by (intro conjI)
  note inst = due_before_start_rows [of "ymd 2023 Mar 1" reversed_tx x]
  from inst i1 have "transaction_rows (ymd 2023 Mar 1) reversed_tx = []"
    by (elim conjE) simp
  moreover from inst h
  have "\<exists>row. expand_row_ja x = [row] \<and> month_col row = replace_day1 (ymd 2023 Mar 5)
           \<and> month_relatif row = 0"
    by (elim conjE) blast
  moreover from due_before_start_rows [of "ymd 2023 Jan 1" same_month_tx x] i2
  have "transaction_rows (ymd 2023 Jan 1) same_month_tx
      = [month_entry (ymd 2023 Jan 1) same_month_tx (replace_day1 (order_date same_month_tx))]"
    by blast
  ultimately show ?thesis
    unfolding c d using e by simp
qed

text \<open>
  The claim as stated fails in both scripts. In the main script the due date
  10 January 2023 precedes the order date 20 January 2023, and the transaction yields the
  row of January 2023. In \<^verbatim>\<open>pipeline_JA\<close> the due date 10 January 2023 precedes the order
  date 5 March 2023, and the subscription yields the row of March 2023.
\<close>

theorem due_before_start_counterexample:
  "ts_lt (echeance_date same_month_tx) (order_date same_month_tx)
   \<and> map mois (transaction_rows (ymd 2023 Jan 1) same_month_tx) = [''01/2023'']
   \<and> order_date_dt reversed_subscription = Some (ymd 2023 Mar 5)
   \<and> ECHEANCE_date_dt reversed_subscription = Some (ymd 2023 Jan 10)
   \<and> ts_lt (ymd 2023 Jan 10) (ymd 2023 Mar 5)
   \<and> map (\<lambda>r. (subscription_id (fst (source_row r)), month_col r, month_relatif r))
        (create_monthly_report_ja [reversed_subscription]) = [(100, ymd 2023 Mar 1, 0)]"
proof -
  have a: "ts_lt (echeance_date same_month_tx) (order_date same_month_tx)
   \<and> map mois (transaction_rows (ymd 2023 Jan 1) same_month_tx) = [''01/2023'']"
    by (simp add: same_month_tx_def eval_simps)
  have "date_range_MS (ymd 2023 Mar 5) (ymd 2023 Jan 10) = []"
    using reversed_subscription_dates(3) by (rule date_range_MS_reversed)
  then have b: "map (\<lambda>r. (subscription_id (fst (source_row r)), month_col r, month_relatif r))
        (create_monthly_report_ja [reversed_subscription]) = [(100, ymd 2023 Mar 1, 0)]"
    by (simp add: create_monthly_report_ja_def df_sorted_ja_def sort_values_def Let_def
        expand_row_ja_def reversed_subscription_def mk_subscription_def
        replace_day1_def months_diff_def)
       (simp add: ymd_def)
  from a b reversed_subscription_dates show ?thesis
    by simp
qed

subsection \<open>Active customers against the initial population\<close>

lemma four_digit_year_between:
  assumes "month_index a \<le> month_index cm" "month_index cm \<le> month_index b"
    "four_digit_year a" "four_digit_year b"
  shows "four_digit_year cm"
  using assms month_num_bounds [of "month a"] month_num_bounds [of "month b"]
    month_num_bounds [of "month cm"]
  unfolding four_digit_year_def month_index_def by linarith

lemma four_digit_year_replace_day1 [simp]: "four_digit_year (replace_day1 d) = four_digit_year d"
  by (simp add: four_digit_year_def)

lemma first_month_in_loop:
  assumes "month_index (order_date t) \<le> month_index (echeance_date t)"
  shows "replace_day1 (order_date t)
    \<in> set (months_loop (replace_day1 (order_date t)) (replace_day1 (echeance_date t)))"
proof -
  from assms have "ts_le (replace_day1 (order_date t)) (replace_day1 (echeance_date t))"
    by (simp add: ts_le_index)
  then show ?thesis
    by (simp add: months_loop_first)
qed

lemma month0_row_exists:
  assumes tbl: "create_monthly_retention_table df = Inr monthly_df"
    and due: "\<forall>t\<in>set df. due_month_not_before_order_month t"
    and yrs: "\<forall>t\<in>set df. four_digit_years t"
    and r: "r \<in> set monthly_df"
  shows "\<exists>r0\<in>set monthly_df. customer_id r0 = customer_id r
      \<and> date_debut_parcours r0 = date_debut_parcours r \<and> mois_relatif r0 = 0"
proof -
  from tbl have eq: "monthly_df = drop_duplicates dedup_key (monthly_data df)"
    by (simp add: create_monthly_retention_table_def split: if_splits)
  have sub: "x \<in> set (monthly_data df)" if "x \<in> set monthly_df" for x
    using that drop_duplicates_subset [of dedup_key "monthly_data df"] unfolding eq by blast
  from monthly_data_row [OF sub [OF r]] obtain js t0 t cm where
    js: "journey_start (filter (\<lambda>u. customer_id u = customer_id r) df) = Some js"
    and t0: "t0 \<in> set df" "customer_id t0 = customer_id r" "order_date t0 = js"
    and rr: "r = month_entry (replace_day1 js) t cm"
    by blast
  let ?j = "replace_day1 js"
  let ?e0 = "month_entry ?j t0 ?j"
  from due t0(1) have "month_index (order_date t0) \<le> month_index (echeance_date t0)"
    by (simp add: due_month_not_before_order_month_def)
  from first_month_in_loop [OF this]
  have "?j \<in> set (months_loop (replace_day1 (order_date t0)) (replace_day1 (echeance_date t0)))"
    by (simp add: t0(3))
  moreover from js t0(2)
  have "journey_start (filter (\<lambda>u. customer_id u = customer_id t0) df) = Some js"
    by simp
  ultimately have "?e0 \<in> set (monthly_data df)"
    using t0(1) by (intro monthly_dataI)
  then have "dedup_key ?e0 \<in> dedup_key ` set monthly_df"
    unfolding eq drop_duplicates_keys by (rule imageI)
  then obtain r0 where r0: "r0 \<in> set monthly_df" "dedup_key r0 = dedup_key ?e0"
    by auto
  from r0(2) t0(2) have c0: "customer_id r0 = customer_id r" and m0: "mois r0 = strftime_mY js"
    by (simp_all add: dedup_key_def)
  from monthly_data_row [OF sub [OF r0(1)]] obtain js' t' cm' where
    js': "journey_start (filter (\<lambda>u. customer_id u = customer_id r0) df) = Some js'"
    and t': "t' \<in> set df"
    and cm': "cm' \<in> set (months_loop (replace_day1 (order_date t')) (replace_day1 (echeance_date t')))"
    and rr0: "r0 = month_entry (replace_day1 js') t' cm'"
    by blast
  from js js' c0 have same: "js' = js"
    by simp
  from yrs t' have "four_digit_year (order_date t')" "four_digit_year (echeance_date t')"
    by (simp_all add: four_digit_years_def)
  with transaction_months_bounds [OF cm'] have "four_digit_year cm'"
    using four_digit_year_between by blast
  moreover from yrs t0(1,3) have "four_digit_year js"
    by (auto simp: four_digit_years_def)
  moreover from m0 rr0 have "strftime_mY cm' = strftime_mY js"
    by simp
  ultimately have "year cm' = year js \<and> month cm' = month js"
    by (rule strftime_mY_inj)
  then have "months_diff cm' js = 0"
    by (simp add: months_diff_zero_iff)
  with rr0 same have "mois_relatif r0 = 0"
    by simp
  moreover from rr rr0 same have "date_debut_parcours r0 = date_debut_parcours r"
    by simp
  ultimately show ?thesis
    using r0(1) c0 by blast
qed

lemma customers_at_mono:
  assumes "\<forall>r\<in>set cd. mois_relatif r = m \<longrightarrow>
      (\<exists>r0\<in>set cd. customer_id r0 = customer_id r \<and> mois_relatif r0 = 0)"
  shows "customers_at m cd \<le> customers_at 0 cd"
proof -
  have "set (map customer_id (filter (\<lambda>r. mois_relatif r = m) cd))
      \<subseteq> set (map customer_id (filter (\<lambda>r. mois_relatif r = 0) cd))"
  proof
    fix c
    assume "c \<in> set (map customer_id (filter (\<lambda>r. mois_relatif r = m) cd))"
    then obtain r where "r \<in> set cd" "mois_relatif r = m" "customer_id r = c"
      by auto
    with assms obtain r0 where "r0 \<in> set cd" "customer_id r0 = c" "mois_relatif r0 = 0"
      by blast
    then show "c \<in> set (map customer_id (filter (\<lambda>r. mois_relatif r = 0) cd))"
      by force
  qed
  then have "card (set (map customer_id (filter (\<lambda>r. mois_relatif r = m) cd)))
      \<le> card (set (map customer_id (filter (\<lambda>r. mois_relatif r = 0) cd)))"
    by (intro card_mono) simp_all
  then show ?thesis
    by (simp only: customers_at_def nunique_card)
qed

lemma round2_le_100: "x \<le> 100 \<Longrightarrow> round2 x \<le> 100"
proof -
  assume x: "x \<le> 100"
  let ?f = "\<lfloor>x * 100\<rfloor>"
  from x have x100: "x * 100 \<le> 10000" by simp
  then have "?f \<le> \<lfloor>10000 :: rat\<rfloor>" by (rule floor_mono)
  then have f: "?f \<le> 10000" by simp
  show ?thesis
  proof (cases "?f = 10000")
    case True
    have "of_int ?f \<le> x * 100" by (rule of_int_floor_le)
    with True x100 have "x * 100 = 10000" by simp
    then have "x = 100" by simp
    then show ?thesis by (simp add: round2_def)
  next
    case False
    with f have "?f + 1 \<le> 10000" by linarith
    then have "(of_int (?f + 1) :: rat) \<le> of_int 10000"
      by (simp only: of_int_le_iff)
    then have a: "(of_int ?f :: rat) + 1 \<le> 10000"
      by simp
    then have b: "(of_int ?f :: rat) \<le> 10000"
      by simp
    show ?thesis
      unfolding round2_def Let_def using a b by (simp add: divide_le_eq)
  qed
qed

lemma retention_rate_le_100: "a \<le> i \<Longrightarrow> i \<noteq> 0 \<Longrightarrow> retention_rate a i \<le> 100"
  by (simp add: retention_rate_def divide_le_eq)

lemma cohort_points_counts:
  assumes "p \<in> set (cohort_points monthly_df c)"
  shows "\<exists>m. clients_actifs p = customers_at m (filter (\<lambda>r. date_debut_parcours r = c) monthly_df)
      \<and> clients_initiaux p = customers_at 0 (filter (\<lambda>r. date_debut_parcours r = c) monthly_df)
      \<and> clients_initiaux p \<noteq> 0
      \<and> taux_retention p = round2 (retention_rate (clients_actifs p) (clients_initiaux p))"
  using assms by (auto simp: cohort_points_def Let_def split: if_splits)

lemma round1_le_100: "x \<le> 100 \<Longrightarrow> round1 x \<le> 100"
proof -
  assume x: "x \<le> 100"
  let ?f = "\<lfloor>x * 10\<rfloor>"
  from x have x10: "x * 10 \<le> 1000" by simp
  then have "?f \<le> \<lfloor>1000 :: rat\<rfloor>" by (rule floor_mono)
  then have f: "?f \<le> 1000" by simp
  show ?thesis
  proof (cases "?f = 1000")
    case True
    have "of_int ?f \<le> x * 10" by (rule of_int_floor_le)
    with True x10 have "x * 10 = 1000" by simp
    then have "x = 100" by simp
    then show ?thesis by (simp add: round1_def)
  next
    case False
    with f have "?f + 1 \<le> 1000" by linarith
    then have "(of_int (?f + 1) :: rat) \<le> of_int 1000"
      by (simp only: of_int_le_iff)
    then have a: "(of_int ?f :: rat) + 1 \<le> 1000"
      by simp
    then have b: "(of_int ?f :: rat) \<le> 1000"
      by simp
    show ?thesis
      unfolding round1_def Let_def using a b by (simp add: divide_le_eq)
  qed
qed

lemma segment_month_value_le_100:
  "segment_month_value segment_df value month_rel = Some x \<Longrightarrow> x \<le> 100"
  by (auto simp: segment_month_value_def Let_def round1_le_100 split: if_splits)

lemma mk_transaction_sel [simp]:
  "customer_id (mk_transaction c s f d1 d2) = c"
  "subscription_id (mk_transaction c s f d1 d2) = s"
  "frequence (mk_transaction c s f d1 d2) = Some f"
  "psp (mk_transaction c s f d1 d2) = None"
  "tm_source (mk_transaction c s f d1 d2) = None"
  "tm_medium (mk_transaction c s f d1 d2) = None"
  "consolidated_revenues_ht_euro (mk_transaction c s f d1 d2) = Some 10"
  "order_date (mk_transaction c s f d1 d2) = d1"
  "echeance_date (mk_transaction c s f d1 d2) = d2"
  by (simp_all add: mk_transaction_def)

lemma month_entry_sel2 [simp]:
  "psp (month_entry j t cm) = psp t"
  "tm_source (month_entry j t cm) = tm_source t"
  "tm_medium (month_entry j t cm) = tm_medium t"
  "consolidated_revenues_ht_euro (month_entry j t cm) = consolidated_revenues_ht_euro t"
  by (simp_all add: month_entry_def)

lemma clean_row_sel [simp]:
  "customer_id (clean_row r) = customer_id r" "frequence (clean_row r) = frequence r"
  "mois_relatif (clean_row r) = mois_relatif r"
  "date_debut_parcours (clean_row r) = date_debut_parcours r"
  "tm_source (clean_row r) = tm_source r" "tm_medium (clean_row r) = tm_medium r"
  "psp_clean (clean_row r) = fillna ''CB'' (psp r)"
  "revenue_tranche (clean_row r) = cut_revenue (fillna 0 (consolidated_revenues_ht_euro r))"
  by (simp_all add: clean_row_def monthly_row.extend_def)

text \<open>Evaluation that keeps rows folded and reads them through their fields.\<close>

lemmas table_simps =
  monthly_data_def customer_rows_def transaction_rows_def journey_start_def
  ymd_def unique_def replace_day1_def ts_le_def ts_lt_def ts_key_def
  next_month_def strftime_mY_def digit_char_def months_diff_def
  drop_duplicates_def dedup_key_def Let_def
  months_loop.simps [of "\<lparr>year = y, month = m, day = d\<rparr>" for y m d]

lemmas segment_simps =
  calculate_segmented_retention_def segments_def segment_retention_def cohort_segment_points_def
  fillna_def cut_revenue_def euro_def
  customers_at_def nunique_def retention_rate_def round2_def

lemma switch_segments_one:
  "segment_retention ''frequence'' frequence (map clean_row switch_table)
   = [\<lparr>cohorte = ''01/2023'', mois_relatif_c = 0, clients_initiaux = 10, clients_actifs = 10,
            taux_retention = 100, segment_type = ''frequence'', segment_value = ''annual''\<rparr>,
          \<lparr>cohorte = ''01/2023'', mois_relatif_c = 1, clients_initiaux = 10, clients_actifs = 11,
            taux_retention = 110, segment_type = ''frequence'', segment_value = ''annual''\<rparr>]"
  by (simp add: switch_table_def switch_df_def upt_rec table_simps segment_simps)

lemma switch_table_returned: "create_monthly_retention_table switch_df = Inr switch_table"
proof -
  have "map customer_id (monthly_data switch_df) \<noteq> []"
    by (simp add: switch_df_def upt_rec table_simps)
  then show ?thesis
    by (auto simp: create_monthly_retention_table_def switch_table_def)
qed

text \<open>
  With a due date before the order month the bound also fails for the plain cohorts: two
  of the three sample customers have no row at month 0, and the cohort of January 2023
  reports 2 active customers at month 2 against an initial population of 1.
\<close>

lemmas retention_simps =
  calculate_cohort_retention_def retention_results_def cohort_points_def customers_at_def
  nunique_def unique_def retention_rate_def round2_def Let_def

lemma reversed_retention:
  "calculate_cohort_retention (drop_duplicates dedup_key (monthly_data reversed_df))
   = Inr [\<lparr>cohorte = ''01/2023'', mois_relatif_c = 0, clients_initiaux = 1, clients_actifs = 1,
            taux_retention = 100\<rparr>,
          \<lparr>cohorte = ''01/2023'', mois_relatif_c = 2, clients_initiaux = 1, clients_actifs = 2,
            taux_retention = 200\<rparr>]"
  by (simp add: reversed_df_def eval_simps retention_simps)

text \<open>
  Claim C4 as stated fails for the per-segment cohorts. In the segment
  \<^verbatim>\<open>frequence = 'annual'\<close> of the sample frame, the cohort of January 2023 has 10 customers at
  month 0 and 11 at month 1: the eleventh customer enters the segment after month 0. The
  reported rate is 110.
\<close>

theorem segment_active_exceeds_initial_counterexample:
  "create_monthly_retention_table switch_df = Inr switch_table
   \<and> map_of (calculate_segmented_retention switch_table) ''frequence''
     = Some [\<lparr>cohorte = ''01/2023'', mois_relatif_c = 0, clients_initiaux = 10,
              clients_actifs = 10, taux_retention = 100, segment_type = ''frequence'',
              segment_value = ''annual''\<rparr>,
            \<lparr>cohorte = ''01/2023'', mois_relatif_c = 1, clients_initiaux = 10,
              clients_actifs = 11, taux_retention = 110, segment_type = ''frequence'',
              segment_value = ''annual''\<rparr>]"
  by (simp add: switch_table_returned calculate_segmented_retention_def segments_def Let_def
      switch_segments_one)

text \<open>
  Claim C4, amended. Let the frame hold only transactions whose due date is not in a month
  before the order date's month (and whose years have four digits, as every pandas
  timestamp has). Then \<^verbatim>\<open>calculate_cohort_retention\<close> returns on the table built from the
  frame, and every point it reports has \<^verbatim>\<open>clients_actifs\<close> at most \<^verbatim>\<open>clients_initiaux\<close> and
  \<^verbatim>\<open>taux_retention\<close> at most 100. In the dashboard, every value
  \<^verbatim>\<open>prepare_segment_evolution_data\<close> stores for a segment and a month is at most 100,
  because the rate is capped there. Nothing is stated for the per-segment cohorts of
  \<^verbatim>\<open>calculate_segmented_retention\<close>.
\<close>

theorem active_at_most_initial:
  assumes tbl: "create_monthly_retention_table df = Inr monthly_df"
    and due': "list_all due_month_not_before_order_month df"
    and yrs': "list_all four_digit_years df"
  shows "(\<exists>pts. calculate_cohort_retention monthly_df = Inr pts
      \<and> (\<forall>p\<in>set pts. clients_actifs p \<le> clients_initiaux p \<and> taux_retention p \<le> 100))
    \<and> (\<forall>segment_df value month_rel x.
          segment_month_value segment_df value month_rel = Some x \<longrightarrow> x \<le> 100)"
proof -
  from due' yrs' have due: "\<forall>t\<in>set df. due_month_not_before_order_month t"
    and yrs: "\<forall>t\<in>set df. four_digit_years t"
    by (simp_all add: list_all_iff)
  note m0 = month0_row_exists [OF tbl due yrs]
  have bound: "clients_actifs p \<le> clients_initiaux p \<and> taux_retention p \<le> 100"
    if p: "p \<in> set (cohort_points monthly_df c)" for p c
  proof -
    let ?cd = "filter (\<lambda>r. date_debut_parcours r = c) monthly_df"
    from cohort_points_counts [OF p] obtain m where
      a: "clients_actifs p = customers_at m ?cd" and i: "clients_initiaux p = customers_at 0 ?cd"
      and nz: "clients_initiaux p \<noteq> 0"
      and rate: "taux_retention p = round2 (retention_rate (clients_actifs p) (clients_initiaux p))"
      by blast
    have "\<exists>r0\<in>set ?cd. customer_id r0 = customer_id r \<and> mois_relatif r0 = 0"
      if "r \<in> set ?cd" for r
    proof -
      from that have "r \<in> set monthly_df" "date_debut_parcours r = c"
        by simp_all
      with m0 [of r] show ?thesis
        by auto
    qed
    then have "customers_at m ?cd \<le> customers_at 0 ?cd"
      by (intro customers_at_mono) blast
    with a i have le: "clients_actifs p \<le> clients_initiaux p"
      by simp
    with nz rate show ?thesis
      by (simp add: round2_le_100 retention_rate_le_100)
  qed
  have all: "\<forall>p\<in>set (retention_results monthly_df).
      clients_actifs p \<le> clients_initiaux p \<and> taux_retention p \<le> 100"
    unfolding retention_results_def using bound by auto
  from tbl have eq: "monthly_df = drop_duplicates dedup_key (monthly_data df)"
    and ne: "monthly_data df \<noteq> []"
    by (simp_all add: create_monthly_retention_table_def split: if_splits)
  from ne obtain x where "x \<in> set (monthly_data df)"
    by (cases "monthly_data df") auto
  then have "dedup_key x \<in> dedup_key ` set monthly_df"
    unfolding eq drop_duplicates_keys by (rule imageI)
  then obtain r where "r \<in> set monthly_df"
    by (rule imageE)
  from m0 [OF this] obtain r0 where r0: "r0 \<in> set monthly_df" "mois_relatif r0 = 0"
    by blast
  let ?c = "date_debut_parcours r0"
  from r0 have "filter (\<lambda>r. mois_relatif r = 0) (filter (\<lambda>r. date_debut_parcours r = ?c) monthly_df) \<noteq> []"
    by (auto simp: filter_empty_conv)
  then have "customers_at 0 (filter (\<lambda>r. date_debut_parcours r = ?c) monthly_df) \<noteq> 0"
    by (simp add: customers_at_def)
  from cohort_points_has_month0 [OF this] obtain p where "p \<in> set (cohort_points monthly_df ?c)"
    by blast
  moreover from r0(1) have "?c \<in> set (unique (map date_debut_parcours monthly_df))"
    by simp
  ultimately have "p \<in> set (retention_results monthly_df)"
    unfolding retention_results_def by auto
  then have "retention_results monthly_df \<noteq> []"
    by auto
  with all have "\<exists>pts. calculate_cohort_retention monthly_df = Inr pts
      \<and> (\<forall>p\<in>set pts. clients_actifs p \<le> clients_initiaux p \<and> taux_retention p \<le> 100)"
    by (simp add: calculate_cohort_retention_def)
  with segment_month_value_le_100 show ?thesis
    by blast
qed

theorem active_at_most_initial_witness:
  "create_monthly_retention_table gap_df = Inr (drop_duplicates dedup_key (monthly_data gap_df))
   \<and> list_all due_month_not_before_order_month gap_df
   \<and> list_all four_digit_years gap_df
   \<and> (\<exists>pts. calculate_cohort_retention (drop_duplicates dedup_key (monthly_data gap_df)) = Inr pts
        \<and> (\<forall>p\<in>set pts. clients_actifs p \<le> clients_initiaux p \<and> taux_retention p \<le> 100))"
proof -
  let ?tbl = "drop_duplicates dedup_key (monthly_data gap_df)"
  have "length (map (\<lambda>r. (mois r, mois_relatif r, date_debut_parcours r)) ?tbl) = 4"
    unfolding gap_table by simp
  then have "monthly_data gap_df \<noteq> []"
    by (auto simp: drop_duplicates_def)
  then have h: "create_monthly_retention_table gap_df = Inr ?tbl"
    by (simp add: create_monthly_retention_table_def)
  have due: "list_all due_month_not_before_order_month gap_df"
    by (simp add: gap_df_def due_month_not_before_order_month_def month_index_def
        mk_transaction_def ymd_def)
  have yrs: "list_all four_digit_years gap_df"
    by (simp add: gap_df_def four_digit_years_def four_digit_year_def mk_transaction_def ymd_def)
  from active_at_most_initial [OF h due yrs] h due yrs show ?thesis
    by blast
qed

section \<open>Properties of the pipeline scripts\<close>

subsection \<open>Days\<close>

lemma div_step:
  fixes y k :: int
  assumes "0 < k"
  shows "y div k = (y - 1) div k + (if y mod k = 0 then 1 else 0)"
proof (cases "y mod k = 0")
  case True
  have "y - 1 = k * (y div k - 1) + (k - 1)"
    using True mult_div_mod_eq [of k y] by (simp add: algebra_simps)
  from int_div_pos_eq [OF this] assms have "(y - 1) div k = y div k - 1"
    by simp
  with True show ?thesis by simp
next
  case False
  with assms have "1 \<le> y mod k" "y mod k < k"
    using pos_mod_sign [of k y] pos_mod_bound [of k y] by linarith+
  moreover have "y - 1 = k * (y div k) + (y mod k - 1)"
    using mult_div_mod_eq [of k y] by (simp add: algebra_simps)
  ultimately have "(y - 1) div k = y div k"
    using int_div_pos_eq [of "y - 1" k "y div k" "y mod k - 1"] by simp
  with False show ?thesis by simp
qed

lemma days_before_year_Suc:
  "days_before_year (y + 1) = days_before_year y + (if is_leap y then 366 else 365)"
proof -
  have d4: "y div 4 = (y - 1) div 4 + (if y mod 4 = 0 then 1 else 0)"
    by (rule div_step) simp
  have d100: "y div 100 = (y - 1) div 100 + (if y mod 100 = 0 then 1 else 0)"
    by (rule div_step) simp
  have d400: "y div 400 = (y - 1) div 400 + (if y mod 400 = 0 then 1 else 0)"
    by (rule div_step) simp
  have m1: "y mod 4 = 0" if "y mod 100 = 0"
  proof -
    from that have "100 dvd y" by (simp add: dvd_eq_mod_eq_0)
    then have "4 dvd y" by (rule dvd_trans [rotated]) simp
    then show ?thesis by (simp add: dvd_eq_mod_eq_0)
  qed
  have m2: "y mod 100 = 0" if "y mod 400 = 0"
  proof -
    from that have "400 dvd y" by (simp add: dvd_eq_mod_eq_0)
    then have "100 dvd y" by (rule dvd_trans [rotated]) simp
    then show ?thesis by (simp add: dvd_eq_mod_eq_0)
  qed
  define c4 :: int where "c4 = (if y mod 4 = 0 then 1 else 0)"
  define c100 :: int where "c100 = (if y mod 100 = 0 then 1 else 0)"
  define c400 :: int where "c400 = (if y mod 400 = 0 then 1 else 0)"
  have "days_before_year (y + 1) = y * 365 + y div 4 - y div 100 + y div 400"
    unfolding days_before_year_def by (simp only: add_diff_cancel_right')
  also have "\<dots> = days_before_year y + (365 + c4 - c100 + c400)"
    unfolding days_before_year_def c4_def c100_def c400_def
    by (subst d4, subst d100, subst d400) (simp only: algebra_simps)
  also have "365 + c4 - c100 + c400 = (if is_leap y then 366 else 365)"
    unfolding c4_def c100_def c400_def is_leap_def using m1 m2
    by (cases "y mod 4 = 0"; cases "y mod 100 = 0"; cases "y mod 400 = 0") simp_all
  finally show ?thesis .
qed

lemma days_before_month_succ:
  "m \<noteq> Dec \<Longrightarrow> days_before_month y (succ_month m) = days_before_month y m + days_in_month y m"
  by (cases m) (simp_all add: days_before_month_def)

lemma days_before_month_Dec: "days_before_month y Dec + 31 = (if is_leap y then 366 else 365)"
  by (simp add: days_before_month_def)

lemma days_before_month_Jan [simp]: "days_before_month y Jan = 0"
  by (simp add: days_before_month_def)

lemma toordinal_next_day:
  assumes "valid_date d"
  shows "toordinal (next_day d) = toordinal d + 1 \<and> valid_date (next_day d)"
proof (cases "day d < days_in_month (year d) (month d)")
  case True
  with assms show ?thesis
    by (simp add: next_day_def toordinal_def valid_date_def)
next
  case False
  with assms have last: "day d = days_in_month (year d) (month d)"
    by (simp add: valid_date_def)
  show ?thesis
  proof (cases "month d = Dec")
    case True
    with last have "day d = 31" by simp
    with True False show ?thesis
      using days_before_month_Dec [of "year d"]
      by (simp add: next_day_def next_month_def toordinal_def valid_date_def days_before_year_Suc)
  next
    case nd: False
    then have "month_num (month d) \<noteq> 12"
      by (cases "month d") simp_all
    with nd False last show ?thesis
      by (cases "month d")
        (simp_all add: next_day_def next_month_def toordinal_def valid_date_def
          days_before_month_def)
  qed
qed

lemma toordinal_plus_days:
  "valid_date d \<Longrightarrow> toordinal (plus_days n d) = toordinal d + int n \<and> valid_date (plus_days n d)"
  by (induction n) (simp_all add: plus_days_def toordinal_next_day)

subsection \<open>The repair of the dates\<close>

lemma repair_row_dates:
  "order_date_dt (repair_row parse raw) = order_after_reconstruction parse raw"
  "ECHEANCE_date_dt (repair_row parse raw) =
     (if condition_fix_echeance (frequence raw) (echeance_after_reconstruction parse raw)
           (order_after_reconstruction parse raw)
      then map_option (plus_days 30) (order_after_reconstruction parse raw)
      else echeance_after_reconstruction parse raw)"
  by (simp_all add: repair_row_def order_after_reconstruction_def
      echeance_after_reconstruction_def Let_def)

lemma repair_row_rf_dates:
  "order_date_dt (repair_row_rf parse raw) = order_after_reconstruction parse raw"
  "ECHEANCE_date_dt (repair_row_rf parse raw) =
     (if condition_fix_echeance (frequence raw) (echeance_after_reconstruction parse raw)
           (order_after_reconstruction parse raw)
      then map_option (plus_days 30) (order_after_reconstruction parse raw)
      else echeance_after_reconstruction parse raw)"
  by (simp_all add: repair_row_rf_def order_after_reconstruction_def
      echeance_after_reconstruction_def Let_def)

lemma repair_row_methode:
  "methode_reparation_date (repair_row parse raw) =
     (if condition_fix_echeance (frequence raw) (echeance_after_reconstruction parse raw)
           (order_after_reconstruction parse raw)
      then Imputee
      else if parse_cell parse (raw_order_date raw) = None
              \<or> parse_cell parse (raw_ECHEANCE_date raw) = None
      then Reconstruite else Originale)"
  by (simp add: repair_row_def order_after_reconstruction_def
      echeance_after_reconstruction_def Let_def)

lemma labels_distinct: "distinct [Originale, Reconstruite, Imputee]"
  by (simp add: Originale_def Reconstruite_def Imputee_def)

text \<open>
  Claim C8. A row whose due date is still missing after parsing and reconstruction, whose
  frequency contains \<^verbatim>\<open>monthly\<close> and whose order date is present leaves the repair with
  the due date thirty days after the order date, in \<^verbatim>\<open>lancer_analyse\<close> and in
  \<^verbatim>\<open>rapport_final\<close>, and is kept by the final \<^verbatim>\<open>dropna\<close>; thirty days later is thirty
  more on the day count of a calendar date. In \<^verbatim>\<open>lancer_analyse\<close> the row is labelled
  \<open>Imputee\<close>, and every row carries one of three distinct labels: the imputed
  one when its due date was imputed, else \<^verbatim>\<open>Reconstruite\<close> when one of its dates did not
  parse, else \<^verbatim>\<open>Originale\<close>.
\<close>

theorem missing_monthly_due_date_imputed:
  assumes "echeance_after_reconstruction parse raw = None"
    and "contains_monthly (frequence raw)"
    and "order_after_reconstruction parse raw = Some start"
  shows "order_date_dt (repair_row parse raw) = Some start
     \<and> ECHEANCE_date_dt (repair_row parse raw) = Some (plus_days 30 start)
     \<and> methode_reparation_date (repair_row parse raw) = Imputee
     \<and> (raw \<in> set df_grouped \<longrightarrow>
          repair_row parse raw \<in> set (group_and_repair_data parse df_grouped))
     \<and> order_date_dt (repair_row_rf parse raw) = Some start
     \<and> ECHEANCE_date_dt (repair_row_rf parse raw) = Some (plus_days 30 start)
     \<and> (raw \<in> set df_grouped \<longrightarrow>
          repair_row_rf parse raw \<in> set (group_and_repair_data_rf parse df_grouped))
     \<and> (valid_date start \<longrightarrow> toordinal (plus_days 30 start) = toordinal start + 30)
     \<and> (\<forall>r. methode_reparation_date (repair_row parse r) =
           (if condition_fix_echeance (frequence r) (echeance_after_reconstruction parse r)
                 (order_after_reconstruction parse r)
            then Imputee
            else if parse_cell parse (raw_order_date r) = None
                    \<or> parse_cell parse (raw_ECHEANCE_date r) = None
            then Reconstruite else Originale))
     \<and> distinct [Originale, Reconstruite, Imputee]"
proof -
  have cond: "condition_fix_echeance (frequence raw) (echeance_after_reconstruction parse raw)
      (order_after_reconstruction parse raw)"
    using assms by (simp add: condition_fix_echeance_def)
  have d1: "order_date_dt (repair_row parse raw) = Some start"
    and d2: "ECHEANCE_date_dt (repair_row parse raw) = Some (plus_days 30 start)"
    and d3: "order_date_dt (repair_row_rf parse raw) = Some start"
    and d4: "ECHEANCE_date_dt (repair_row_rf parse raw) = Some (plus_days 30 start)"
    using cond assms(3) by (simp_all add: repair_row_dates repair_row_rf_dates)
  have m: "methode_reparation_date (repair_row parse raw) = Imputee"
    using cond by (simp add: repair_row_methode)
  have k1: "repair_row parse raw \<in> set (group_and_repair_data parse df_grouped)"
    if "raw \<in> set df_grouped"
    using that d1 d2 by (simp add: group_and_repair_data_def has_both_dates_def)
  have k2: "repair_row_rf parse raw \<in> set (group_and_repair_data_rf parse df_grouped)"
    if "raw \<in> set df_grouped"
    using that d3 d4 by (simp add: group_and_repair_data_rf_def has_both_dates_def)
  have o: "toordinal (plus_days 30 start) = toordinal start + 30" if "valid_date start"
    using toordinal_plus_days [OF that, of 30] by simp
  from d1 d2 d3 d4 m k1 k2 o repair_row_methode labels_distinct show ?thesis
    by blast
qed

lemma plus_days_30_sample: "plus_days 30 (ymd 2023 Jan 15) = ymd 2023 Feb 14"
  by (simp add: plus_days_def eval_nat_numeral next_day_def next_month_def ymd_def is_leap_def)

theorem missing_monthly_due_date_imputed_witness:
  "ECHEANCE_date_dt (repair_row parse_sample undated_raw) = Some (ymd 2023 Feb 14)
   \<and> methode_reparation_date (repair_row parse_sample undated_raw) = Imputee
   \<and> repair_row parse_sample undated_raw \<in> set (group_and_repair_data parse_sample [undated_raw])
   \<and> ECHEANCE_date_dt (repair_row_rf parse_sample undated_raw) = Some (ymd 2023 Feb 14)
   \<and> toordinal (ymd 2023 Feb 14) = toordinal (ymd 2023 Jan 15) + 30"
proof -
  have a: "echeance_after_reconstruction parse_sample undated_raw = None"
    "contains_monthly (frequence undated_raw)"
    "order_after_reconstruction parse_sample undated_raw = Some (ymd 2023 Jan 15)"
    by (simp_all add: echeance_after_reconstruction_def order_after_reconstruction_def
        undated_raw_def mk_raw_def parse_cell_def parse_sample_def to_datetime_ymd_def
        contains_monthly_def str_lower_def char_lower_def)
  have v: "valid_date (ymd 2023 Jan 15)"
    by (simp add: valid_date_def ymd_def)
  have mem: "undated_raw \<in> set [undated_raw]"
    by simp
  from missing_monthly_due_date_imputed [OF a, of "[undated_raw]", unfolded plus_days_30_sample]
    v mem show ?thesis
    by blast
qed

subsection \<open>Cutting journeys\<close>

lemma map_fst_cut_journeys [simp]: "map fst (cut_journeys le n rows) = rows"
  by (induction rows arbitrary: le n) (simp_all add: Let_def)

lemma length_cut_journeys [simp]: "length (cut_journeys le n rows) = length rows"
  by (induction rows arbitrary: le n) (simp_all add: Let_def)

lemma fst_cut_journeys_nth:
  "i < length rows \<Longrightarrow> fst (cut_journeys le n rows ! i) = rows ! i"
  using map_fst_cut_journeys [of le n rows] by (metis length_cut_journeys nth_map)

lemma cut_journeys_info:
  "x \<in> set (cut_journeys le n rows) \<Longrightarrow>
     duree_trou_jours (snd x) = days_between (order_date_dt (fst x)) (echeance_precedente (snd x))
     \<and> nouveau_parcours (snd x)
         = gap_starts_journey (duree_trou_jours (snd x)) (seuil_churn_jours (frequence (fst x)))"
  by (induction rows arbitrary: le n) (auto simp: Let_def)

lemma cut_journeys_prev:
  "i < length rows \<Longrightarrow>
     echeance_precedente (snd (cut_journeys le n rows ! i)) =
       (case find (\<lambda>r. customer_id r = customer_id (rows ! i)) (rev (take i rows)) of
          None \<Rightarrow> (case le (customer_id (rows ! i)) of None \<Rightarrow> None | Some e \<Rightarrow> e)
        | Some r \<Rightarrow> ECHEANCE_date_dt r)"
proof (induction rows arbitrary: i le n)
  case Nil
  then show ?case by simp
next
  case (Cons r rows)
  show ?case
  proof (cases i)
    case 0
    then show ?thesis by (simp add: Let_def)
  next
    case (Suc k)
    with Cons.prems have k: "k < length rows" by simp
    show ?thesis
      unfolding Suc
      by (simp add: Let_def Cons.IH [OF k] find_append split: option.splits)
  qed
qed

lemma cut_journeys_Cons:
  obtains info le' where
    "cut_journeys le n (r # rows)
       = (r, info) # cut_journeys le' (n + (if nouveau_parcours info then 1 else 0)) rows"
proof -
  define nouveau where "nouveau = gap_starts_journey
      (days_between (order_date_dt r)
        (case le (customer_id r) of None \<Rightarrow> None | Some e \<Rightarrow> e))
      (seuil_churn_jours (frequence r))"
  show thesis
    by (rule that [of "\<lparr> echeance_precedente =
          (case le (customer_id r) of None \<Rightarrow> None | Some e \<Rightarrow> e),
        duree_trou_jours = days_between (order_date_dt r)
          (case le (customer_id r) of None \<Rightarrow> None | Some e \<Rightarrow> e),
        nouveau_parcours = nouveau,
        cumsum_parcours = (if nouveau then n + 1 else n) \<rparr>"
        "le(customer_id r \<mapsto> ECHEANCE_date_dt r)"])
      (simp add: Let_def nouveau_def)
qed

lemma cut_journeys_cumsum:
  "i < length rows \<Longrightarrow>
     cumsum_parcours (snd (cut_journeys le n rows ! i)) =
       n + length (filter nouveau_parcours (map snd (take (Suc i) (cut_journeys le n rows))))"
proof (induction rows arbitrary: i le n)
  case Nil
  then show ?case by simp
next
  case (Cons r rows)
  show ?case
  proof (cases i)
    case 0
    then show ?thesis by (simp add: Let_def)
  next
    case (Suc k)
    with Cons.prems have k: "k < length rows" by simp
    obtain info le' where eq: "cut_journeys le n (r # rows)
       = (r, info) # cut_journeys le' (n + (if nouveau_parcours info then 1 else 0)) rows"
      by (rule cut_journeys_Cons)
    show ?thesis
      unfolding Suc eq by (simp add: Cons.IH [OF k])
  qed
qed

lemma map_fst_cut_journeys_ja [simp]: "map fst (cut_journeys_ja le ns rows) = rows"
  by (induction rows arbitrary: le ns) (simp_all add: Let_def)

lemma length_cut_journeys_ja [simp]: "length (cut_journeys_ja le ns rows) = length rows"
  by (induction rows arbitrary: le ns) (simp_all add: Let_def)

lemma cut_journeys_ja_info:
  "x \<in> set (cut_journeys_ja le ns rows) \<Longrightarrow>
     duree_trou_jours (snd x) = days_between (order_date_dt (fst x)) (echeance_precedente (snd x))
     \<and> nouveau_parcours (snd x) = gap_starts_journey (duree_trou_jours (snd x)) 90"
  by (induction rows arbitrary: le ns) (auto simp: Let_def)

lemma cut_journeys_ja_prev:
  "i < length rows \<Longrightarrow>
     echeance_precedente (snd (cut_journeys_ja le ns rows ! i)) =
       (case find (\<lambda>r. customer_id r = customer_id (rows ! i)) (rev (take i rows)) of
          None \<Rightarrow> (case le (customer_id (rows ! i)) of None \<Rightarrow> None | Some e \<Rightarrow> e)
        | Some r \<Rightarrow> ECHEANCE_date_dt r)"
proof (induction rows arbitrary: i le ns)
  case Nil
  then show ?case by simp
next
  case (Cons r rows)
  show ?case
  proof (cases i)
    case 0
    then show ?thesis by (simp add: Let_def)
  next
    case (Suc k)
    with Cons.prems have k: "k < length rows" by simp
    show ?thesis
      unfolding Suc
      by (simp add: Let_def Cons.IH [OF k] find_append split: option.splits)
  qed
qed

lemma gap_starts_journey_iff:
  "gap_starts_journey duree seuil \<longleftrightarrow> duree = None \<or> (\<exists>d. duree = Some d \<and> seuil \<le> d)"
  by (cases duree) (simp_all add: gap_starts_journey_def)

lemma prev_of_adjacent:
  assumes "rows = pre @ prev # cur # post" "customer_id prev = customer_id cur"
  shows "Suc (length pre) < length rows" "rows ! Suc (length pre) = cur"
    "find (\<lambda>r. customer_id r = customer_id (rows ! Suc (length pre)))
       (rev (take (Suc (length pre)) rows)) = Some prev"
proof -
  show l: "Suc (length pre) < length rows"
    using assms(1) by simp
  show c: "rows ! Suc (length pre) = cur"
    using assms(1) by (simp add: nth_append)
  have "take (Suc (length pre)) rows = pre @ [prev]"
    using assms(1) by simp
  then show "find (\<lambda>r. customer_id r = customer_id (rows ! Suc (length pre)))
       (rev (take (Suc (length pre)) rows)) = Some prev"
    unfolding c using assms(2) by simp
qed

lemma sort_values_set [simp]: "set (sort_values df_sub) = set df_sub"
  by (simp add: sort_values_def)

lemma sort_values_length [simp]: "length (sort_values df_sub) = length df_sub"
  by (simp add: sort_values_def)

lemma sort_values_nth_mono:
  assumes "i \<le> j" "j < length df_sub"
  shows "(customer_id (sort_values df_sub ! i), date_key (order_date_dt (sort_values df_sub ! i)))
       \<le> (customer_id (sort_values df_sub ! j), date_key (order_date_dt (sort_values df_sub ! j)))"
proof -
  let ?f = "\<lambda>r. (customer_id r, date_key (order_date_dt r))"
  have "sorted (map ?f (sort_values df_sub))"
    unfolding sort_values_def by (rule sorted_sort_key)
  from sorted_nth_mono [OF this, of i j] assms show ?thesis
    by simp
qed

lemma date_key_le: "date_key (Some a) \<le> date_key (Some b) \<longleftrightarrow> ts_le a b"
  by (simp add: date_key_def ts_le_def less_eq_prod_def)

lemma df_sorted_fst [simp]: "map fst (df_sorted df_sub) = sort_values df_sub"
  by (simp add: df_sorted_def)

lemma df_sorted_length [simp]: "length (df_sorted df_sub) = length df_sub"
  by (simp add: df_sorted_def)

lemma df_sorted_fst_nth:
  "i < length df_sub \<Longrightarrow> fst (df_sorted df_sub ! i) = sort_values df_sub ! i"
  unfolding df_sorted_def by (rule fst_cut_journeys_nth) simp

lemma df_sorted_cumsum:
  "i < length df_sub \<Longrightarrow>
     cumsum_parcours (snd (df_sorted df_sub ! i)) =
       length (filter nouveau_parcours (map snd (take (Suc i) (df_sorted df_sub))))"
  unfolding df_sorted_def using cut_journeys_cumsum [of i "sort_values df_sub" Map.empty 0]
  by simp

lemma df_sorted_cumsum_mono:
  assumes "i \<le> j" "j < length df_sub"
  shows "cumsum_parcours (snd (df_sorted df_sub ! i)) \<le> cumsum_parcours (snd (df_sorted df_sub ! j))"
proof -
  let ?xs = "map snd (df_sorted df_sub)"
  from assms have "take (Suc j) ?xs = take (Suc i) ?xs @ drop (Suc i) (take (Suc j) ?xs)"
    by (metis Suc_le_mono append_take_drop_id min.absorb1 take_take)
  then have "length (filter nouveau_parcours (take (Suc i) ?xs))
      \<le> length (filter nouveau_parcours (take (Suc j) ?xs))"
    by (metis filter_append le_add1 length_append)
  with assms show ?thesis
    by (simp add: df_sorted_cumsum take_map)
qed

lemma df_sorted_customer_mono:
  assumes "i \<le> j" "j < length df_sub"
  shows "customer_id (fst (df_sorted df_sub ! i)) \<le> customer_id (fst (df_sorted df_sub ! j))"
  using sort_values_nth_mono [OF assms] assms
  by (auto simp: df_sorted_fst_nth less_eq_prod_def)

lemma df_sorted_date_mono:
  assumes "i \<le> j" "j < length df_sub"
    "customer_id (fst (df_sorted df_sub ! i)) = customer_id (fst (df_sorted df_sub ! j))"
  shows "date_key (order_date_dt (fst (df_sorted df_sub ! i)))
       \<le> date_key (order_date_dt (fst (df_sorted df_sub ! j)))"
  using sort_values_nth_mono [OF assms(1,2)] assms
  by (auto simp: df_sorted_fst_nth less_eq_prod_def)

lemma df_sorted_first_of_customer:
  assumes "sort_values df_sub = pre @ cur # post"
    and "list_all (\<lambda>r. customer_id r \<noteq> customer_id cur) pre"
  shows "fst (df_sorted df_sub ! length pre) = cur"
    "echeance_precedente (snd (df_sorted df_sub ! length pre)) = None"
    "duree_trou_jours (snd (df_sorted df_sub ! length pre)) = None"
    "nouveau_parcours (snd (df_sorted df_sub ! length pre))"
proof -
  let ?rows = "sort_values df_sub"
  let ?x = "df_sorted df_sub ! length pre"
  have l: "length pre < length ?rows"
    unfolding assms(1) by simp
  have c: "?rows ! length pre = cur"
    unfolding assms(1) by simp
  show f: "fst ?x = cur"
    using df_sorted_fst_nth [of "length pre" df_sub] l c by simp
  have "find (\<lambda>r. customer_id r = customer_id cur) (rev (take (length pre) ?rows)) = None"
    unfolding assms(1) using assms(2) by (simp add: find_None_iff list_all_iff)
  with cut_journeys_prev [OF l, of Map.empty 0] c
  show p: "echeance_precedente (snd ?x) = None"
    by (simp add: df_sorted_def)
  have "?x \<in> set (cut_journeys Map.empty 0 ?rows)"
    unfolding df_sorted_def using l by simp
  from cut_journeys_info [OF this]
  show "duree_trou_jours (snd ?x) = None" "nouveau_parcours (snd ?x)"
    unfolding p by (simp_all add: days_between_def gap_starts_journey_def split: option.splits)
qed

lemma df_sorted_cumsum_Suc:
  assumes "Suc i < length df_sub"
  shows "cumsum_parcours (snd (df_sorted df_sub ! Suc i)) =
     cumsum_parcours (snd (df_sorted df_sub ! i))
       + (if nouveau_parcours (snd (df_sorted df_sub ! Suc i)) then 1 else 0)"
proof -
  from assms have i: "i < length df_sub" by simp
  have "take (Suc (Suc i)) (df_sorted df_sub)
      = take (Suc i) (df_sorted df_sub) @ [df_sorted df_sub ! Suc i]"
    using assms by (simp add: take_Suc_conv_app_nth)
  then show ?thesis
    by (simp add: df_sorted_cumsum [OF assms] df_sorted_cumsum [OF i])
qed

lemma cut_journeys_ja_append:
  "\<exists>le' ns'. cut_journeys_ja le ns (pre @ rows)
      = cut_journeys_ja le ns pre @ cut_journeys_ja le' ns' rows"
proof (induction pre arbitrary: le ns)
  case Nil
  show ?case by (intro exI [of _ le] exI [of _ ns]) simp
next
  case (Cons r pre)
  let ?prec = "case le (customer_id r) of None \<Rightarrow> None | Some e \<Rightarrow> e"
  let ?nouveau = "gap_starts_journey (days_between (order_date_dt r) ?prec) 90"
  let ?n = "if ?nouveau then ns (customer_id r) + 1 else ns (customer_id r)"
  from Cons.IH [of "le(customer_id r \<mapsto> ECHEANCE_date_dt r)" "ns(customer_id r := ?n)"]
  obtain le' ns' where "cut_journeys_ja (le(customer_id r \<mapsto> ECHEANCE_date_dt r))
        (ns(customer_id r := ?n)) (pre @ rows)
      = cut_journeys_ja (le(customer_id r \<mapsto> ECHEANCE_date_dt r)) (ns(customer_id r := ?n)) pre
        @ cut_journeys_ja le' ns' rows"
    by blast
  then have "cut_journeys_ja le ns ((r # pre) @ rows)
      = cut_journeys_ja le ns (r # pre) @ cut_journeys_ja le' ns' rows"
    by (simp add: Let_def)
  then show ?case by blast
qed

lemma cut_journeys_ja_adjacent:
  assumes "customer_id prev = customer_id cur"
  shows "\<exists>i1 i2 rest. cut_journeys_ja le ns (prev # cur # post) = (prev, i1) # (cur, i2) # rest
     \<and> cumsum_parcours i2 = cumsum_parcours i1 + (if nouveau_parcours i2 then 1 else 0)"
  using assms by (simp add: Let_def)

lemma df_sorted_ja_adjacent:
  assumes "sort_values df_sub = pre @ prev # cur # post" "customer_id prev = customer_id cur"
  shows "cumsum_parcours (snd (df_sorted_ja df_sub ! Suc (length pre))) =
     cumsum_parcours (snd (df_sorted_ja df_sub ! length pre))
       + (if nouveau_parcours (snd (df_sorted_ja df_sub ! Suc (length pre))) then 1 else 0)"
proof -
  obtain le' ns' where "df_sorted_ja df_sub
      = cut_journeys_ja Map.empty (\<lambda>c. 0) pre @ cut_journeys_ja le' ns' (prev # cur # post)"
    unfolding df_sorted_ja_def assms(1)
    using cut_journeys_ja_append [of Map.empty "\<lambda>c. 0" pre "prev # cur # post"] by blast
  moreover obtain i1 i2 rest where
    "cut_journeys_ja le' ns' (prev # cur # post) = (prev, i1) # (cur, i2) # rest"
    "cumsum_parcours i2 = cumsum_parcours i1 + (if nouveau_parcours i2 then 1 else 0)"
    using cut_journeys_ja_adjacent [OF assms(2), of le' ns' post] by blast
  moreover have "length (cut_journeys_ja Map.empty (\<lambda>c. 0) pre) = length pre"
    by simp
  ultimately show ?thesis
    by (simp add: nth_append)
qed

text \<open>
  Claim C3, as the code has it. Take two rows that follow each other in the frame sorted
  by customer and order date and that belong to one customer. In \<^verbatim>\<open>lancer_analyse\<close> (and
  in \<^verbatim>\<open>analyse_abo_court\<close> and \<^verbatim>\<open>rapport_final\<close>, which share the lines) the gap of the
  second row is the number of days from the due date of the first to its own order date,
  undefined when one of the two dates is missing; the row starts a new journey exactly
  when the gap is undefined or at least the threshold, 35 days when its frequency contains
  \<^verbatim>\<open>monthly\<close> in any case and 90 days otherwise, a missing frequency included; and it
  starts a new journey exactly when its \<^verbatim>\<open>id_parcours\<close> differs from that of the row
  before. In \<^verbatim>\<open>pipeline_JA\<close> the gap is the same, the threshold is 90 days whatever the
  frequency, and \<^verbatim>\<open>parcours_numero\<close> goes up by one exactly on a new journey.
\<close>

theorem new_journey_iff_gap_reaches_threshold:
  assumes "sort_values df_sub = pre @ prev # cur # post"
    and "customer_id prev = customer_id cur"
  shows "(\<exists>info. df_sorted df_sub ! Suc (length pre) = (cur, info)
            \<and> echeance_precedente info = ECHEANCE_date_dt prev
            \<and> duree_trou_jours info = days_between (order_date_dt cur) (ECHEANCE_date_dt prev)
            \<and> (nouveau_parcours info \<longleftrightarrow>
                 duree_trou_jours info = None
                 \<or> (\<exists>d. duree_trou_jours info = Some d
                        \<and> (if contains_monthly (frequence cur) then 35 else 90) \<le> d))
            \<and> (nouveau_parcours info \<longleftrightarrow>
                 id_parcours (df_sorted df_sub ! Suc (length pre))
                   \<noteq> id_parcours (df_sorted df_sub ! length pre)))
       \<and> (\<exists>info. df_sorted_ja df_sub ! Suc (length pre) = (cur, info)
            \<and> echeance_precedente info = ECHEANCE_date_dt prev
            \<and> duree_trou_jours info = days_between (order_date_dt cur) (ECHEANCE_date_dt prev)
            \<and> (nouveau_parcours info \<longleftrightarrow>
                 duree_trou_jours info = None
                 \<or> (\<exists>d. duree_trou_jours info = Some d \<and> 90 \<le> d))
            \<and> cumsum_parcours info =
                 cumsum_parcours (snd (df_sorted_ja df_sub ! length pre))
                   + (if nouveau_parcours info then 1 else 0))"
proof -
  let ?rows = "sort_values df_sub"
  let ?i = "Suc (length pre)"
  note adj = prev_of_adjacent [OF assms]
  have a: "\<exists>info. df_sorted df_sub ! ?i = (cur, info)
            \<and> echeance_precedente info = ECHEANCE_date_dt prev
            \<and> duree_trou_jours info = days_between (order_date_dt cur) (ECHEANCE_date_dt prev)
            \<and> (nouveau_parcours info \<longleftrightarrow>
                 duree_trou_jours info = None
                 \<or> (\<exists>d. duree_trou_jours info = Some d
                        \<and> (if contains_monthly (frequence cur) then 35 else 90) \<le> d))
            \<and> (nouveau_parcours info \<longleftrightarrow>
                 id_parcours (df_sorted df_sub ! ?i) \<noteq> id_parcours (df_sorted df_sub ! length pre))"
  proof -
    let ?x = "df_sorted df_sub ! ?i"
    have f: "fst ?x = cur"
      unfolding df_sorted_def using fst_cut_journeys_nth [OF adj(1)] adj(2) by simp
    have p: "echeance_precedente (snd ?x) = ECHEANCE_date_dt prev"
      unfolding df_sorted_def using cut_journeys_prev [OF adj(1)] adj(3) by simp
    have "?x \<in> set (cut_journeys Map.empty 0 ?rows)"
      unfolding df_sorted_def using adj(1) by simp
    from cut_journeys_info [OF this]
    have d: "duree_trou_jours (snd ?x) = days_between (order_date_dt cur) (ECHEANCE_date_dt prev)"
      and n: "nouveau_parcours (snd ?x)
         = gap_starts_journey (duree_trou_jours (snd ?x)) (seuil_churn_jours (frequence cur))"
      unfolding f p by simp_all
    have "?x = (cur, snd ?x)"
      using f by (simp add: prod_eq_iff)
    moreover note p d
    moreover have "nouveau_parcours (snd ?x) \<longleftrightarrow>
                 duree_trou_jours (snd ?x) = None
                 \<or> (\<exists>d. duree_trou_jours (snd ?x) = Some d
                        \<and> (if contains_monthly (frequence cur) then 35 else 90) \<le> d)"
      unfolding n gap_starts_journey_iff seuil_churn_jours_def ..
    moreover have "nouveau_parcours (snd ?x) \<longleftrightarrow>
        id_parcours ?x \<noteq> id_parcours (df_sorted df_sub ! length pre)"
    proof -
      have l: "Suc (length pre) < length df_sub"
        using adj(1) by simp
      have "fst (df_sorted df_sub ! length pre) = prev"
        using df_sorted_fst_nth [of "length pre" df_sub] l assms(1) by simp
      with f assms(2) df_sorted_cumsum_Suc [OF l] show ?thesis
        by (simp add: id_parcours_def)
    qed
    ultimately show ?thesis
      by blast
  qed
  have b: "\<exists>info. df_sorted_ja df_sub ! ?i = (cur, info)
            \<and> echeance_precedente info = ECHEANCE_date_dt prev
            \<and> duree_trou_jours info = days_between (order_date_dt cur) (ECHEANCE_date_dt prev)
            \<and> (nouveau_parcours info \<longleftrightarrow>
                 duree_trou_jours info = None
                 \<or> (\<exists>d. duree_trou_jours info = Some d \<and> 90 \<le> d))
            \<and> cumsum_parcours info =
                 cumsum_parcours (snd (df_sorted_ja df_sub ! length pre))
                   + (if nouveau_parcours info then 1 else 0)"
  proof -
    let ?x = "df_sorted_ja df_sub ! ?i"
    have "map fst (df_sorted_ja df_sub) ! ?i = cur"
      unfolding df_sorted_ja_def using adj(2) by simp
    then have f: "fst ?x = cur"
      using adj(1) by (simp add: df_sorted_ja_def del: map_fst_cut_journeys_ja)
    have p: "echeance_precedente (snd ?x) = ECHEANCE_date_dt prev"
      unfolding df_sorted_ja_def using cut_journeys_ja_prev [OF adj(1)] adj(3) by simp
    have "?x \<in> set (cut_journeys_ja Map.empty (\<lambda>c. 0) ?rows)"
      unfolding df_sorted_ja_def using adj(1) by simp
    from cut_journeys_ja_info [OF this]
    have d: "duree_trou_jours (snd ?x) = days_between (order_date_dt cur) (ECHEANCE_date_dt prev)"
      and n: "nouveau_parcours (snd ?x) = gap_starts_journey (duree_trou_jours (snd ?x)) 90"
      unfolding f p by simp_all
    have "?x = (cur, snd ?x)"
      using f by (simp add: prod_eq_iff)
    moreover note p d
    moreover have "nouveau_parcours (snd ?x) \<longleftrightarrow>
                 duree_trou_jours (snd ?x) = None
                 \<or> (\<exists>d. duree_trou_jours (snd ?x) = Some d \<and> 90 \<le> d)"
      unfolding n gap_starts_journey_iff ..
    moreover note df_sorted_ja_adjacent [OF assms]
    ultimately show ?thesis
      by blast
  qed
  from a b show ?thesis ..
qed

lemmas calendar_simps =
  toordinal_def days_before_year_def days_before_month_def is_leap_def ymd_def

lemmas frequence_simps =
  contains_monthly_def str_lower_def char_lower_def

lemmas subscription_simps =
  mk_subscription_def sort_values_def date_key_def ts_key_def less_eq_prod_def less_prod_def
  days_between_def seuil_churn_jours_def gap_starts_journey_def Let_def

lemma forty_days_monthly_sorted: "sort_values forty_days_monthly = forty_days_monthly"
  by (simp add: forty_days_monthly_def subscription_simps ymd_def)

lemma forty_days_gap:
  "days_between (Some (ymd 2023 Mar 12)) (Some (ymd 2023 Jan 31)) = Some 40"
  by (simp add: days_between_def calendar_simps)

theorem new_journey_iff_gap_reaches_threshold_witness:
  "(\<exists>info. df_sorted forty_days_monthly ! 1
              = (mk_subscription 1 101 ''monthly'' (ymd 2023 Mar 12) (ymd 2023 Apr 11), info)
          \<and> duree_trou_jours info = Some 40 \<and> nouveau_parcours info)
   \<and> map (\<lambda>x. (duree_trou_jours (snd x), nouveau_parcours (snd x)))
        (df_sorted forty_days_annual) = [(None, True), (Some 40, False)]
   \<and> seuil_churn_jours (Some ''Monthly offer'') = 35 \<and> seuil_churn_jours None = 90"
proof -
  let ?prev = "mk_subscription 1 100 ''monthly'' (ymd 2023 Jan 1) (ymd 2023 Jan 31)"
  let ?cur = "mk_subscription 1 101 ''monthly'' (ymd 2023 Mar 12) (ymd 2023 Apr 11)"
  have s: "sort_values forty_days_monthly = [] @ ?prev # ?cur # []"
    using forty_days_monthly_sorted by (simp add: forty_days_monthly_def)
  have c: "customer_id ?prev = customer_id ?cur"
    by (simp add: mk_subscription_def)
  have m: "contains_monthly (frequence ?cur)"
    by (simp add: mk_subscription_def frequence_simps)
  have g: "days_between (order_date_dt ?cur) (ECHEANCE_date_dt ?prev) = Some 40"
    using forty_days_gap by (simp add: mk_subscription_def)
  have annual: "map (\<lambda>x. (duree_trou_jours (snd x), nouveau_parcours (snd x)))
        (df_sorted forty_days_annual) = [(None, True), (Some 40, False)]"
    by (simp add: df_sorted_def forty_days_annual_def subscription_simps frequence_simps
        calendar_simps)
  have t: "seuil_churn_jours (Some ''Monthly offer'') = 35 \<and> seuil_churn_jours None = 90"
    by (simp add: seuil_churn_jours_def frequence_simps)
  from new_journey_iff_gap_reaches_threshold [OF s c] m g
  have "\<exists>info. df_sorted forty_days_monthly ! 1 = (?cur, info)
          \<and> duree_trou_jours info = Some 40 \<and> nouveau_parcours info"
    by auto
  with annual t show ?thesis
    by blast
qed

text \<open>
  The claim as stated fails in \<^verbatim>\<open>pipeline_JA\<close>: with a gap of forty days and the
  frequency \<^verbatim>\<open>monthly\<close> the second subscription does not start a new journey; both rows
  have \<^verbatim>\<open>parcours_numero\<close> 1.
\<close>

theorem fixed_threshold_counterexample:
  "contains_monthly (frequence (forty_days_monthly ! 1))
   \<and> map (\<lambda>x. (duree_trou_jours (snd x), nouveau_parcours (snd x), cumsum_parcours (snd x)))
        (df_sorted_ja forty_days_monthly) = [(None, True, 1), (Some 40, False, 1)]"
  by (simp add: df_sorted_ja_def forty_days_monthly_def subscription_simps frequence_simps
      calendar_simps)

text \<open>
  Claim C9, for \<^verbatim>\<open>lancer_analyse\<close>. The sorted frame holds every transaction of the input
  once, each with one \<^verbatim>\<open>id_parcours\<close>. The first row of every customer starts a new
  journey. The number in the identifier of a row is the number of journey starts up to and
  including that row, so the rows of one journey are a run of consecutive rows of the
  sorted frame: a row between two rows of one journey belongs to that journey. Of two
  journeys of one customer, every transaction of the one with the smaller number comes
  earlier in the frame and has an order date no later than every transaction of the other.
\<close>

theorem journeys_partition_transactions:
  "length (df_sorted df_sub) = length df_sub
   \<and> set (map fst (df_sorted df_sub)) = set df_sub
   \<and> (\<forall>pre cur post.
        map fst (df_sorted df_sub) = pre @ cur # post
        \<and> list_all (\<lambda>r. customer_id r \<noteq> customer_id cur) pre
        \<longrightarrow> fst (df_sorted df_sub ! length pre) = cur
            \<and> nouveau_parcours (snd (df_sorted df_sub ! length pre)))
   \<and> (\<forall>i < length df_sub.
        cumsum_parcours (snd (df_sorted df_sub ! i)) =
          length (filter nouveau_parcours (map snd (take (Suc i) (df_sorted df_sub)))))
   \<and> (\<forall>i j k. i \<le> j \<and> j \<le> k \<and> k < length df_sub
        \<and> id_parcours (df_sorted df_sub ! i) = id_parcours (df_sorted df_sub ! k)
        \<longrightarrow> id_parcours (df_sorted df_sub ! j) = id_parcours (df_sorted df_sub ! i))
   \<and> (\<forall>i j. i < length df_sub \<and> j < length df_sub
        \<and> customer_id (fst (df_sorted df_sub ! i)) = customer_id (fst (df_sorted df_sub ! j))
        \<and> cumsum_parcours (snd (df_sorted df_sub ! i)) < cumsum_parcours (snd (df_sorted df_sub ! j))
        \<longrightarrow> i < j
            \<and> (\<forall>a b. order_date_dt (fst (df_sorted df_sub ! i)) = Some a
                   \<and> order_date_dt (fst (df_sorted df_sub ! j)) = Some b \<longrightarrow> ts_le a b))"
proof -
  let ?frame = "df_sorted df_sub"
  have first: "fst (?frame ! length pre) = cur \<and> nouveau_parcours (snd (?frame ! length pre))"
    if "map fst ?frame = pre @ cur # post"
      "list_all (\<lambda>r. customer_id r \<noteq> customer_id cur) pre" for pre cur post
    using df_sorted_first_of_customer [of df_sub pre cur post] that by simp
  have contiguous: "id_parcours (?frame ! j) = id_parcours (?frame ! i)"
    if "i \<le> j" "j \<le> k" "k < length df_sub" "id_parcours (?frame ! i) = id_parcours (?frame ! k)"
    for i j k
  proof -
    from that have jl: "j < length df_sub" by simp
    have "customer_id (fst (?frame ! i)) \<le> customer_id (fst (?frame ! j))"
      "customer_id (fst (?frame ! j)) \<le> customer_id (fst (?frame ! k))"
      "cumsum_parcours (snd (?frame ! i)) \<le> cumsum_parcours (snd (?frame ! j))"
      "cumsum_parcours (snd (?frame ! j)) \<le> cumsum_parcours (snd (?frame ! k))"
      using that jl
      by (simp_all add: df_sorted_customer_mono df_sorted_cumsum_mono)
    with that(4) show ?thesis
      by (simp add: id_parcours_def)
  qed
  have ordered: "i < j \<and> (\<forall>a b. order_date_dt (fst (?frame ! i)) = Some a
                   \<and> order_date_dt (fst (?frame ! j)) = Some b \<longrightarrow> ts_le a b)"
    if "i < length df_sub" "j < length df_sub"
      "customer_id (fst (?frame ! i)) = customer_id (fst (?frame ! j))"
      "cumsum_parcours (snd (?frame ! i)) < cumsum_parcours (snd (?frame ! j))" for i j
  proof -
    have ij: "i < j"
    proof (rule ccontr)
      assume "\<not> i < j"
      then have "j \<le> i" by simp
      from df_sorted_cumsum_mono [OF this that(1)] that(4) show False
        by simp
    qed
    then have "i \<le> j" by simp
    from df_sorted_date_mono [OF this that(2,3)] ij show ?thesis
      by (auto simp: date_key_le [symmetric])
  qed
  have c1: "length ?frame = length df_sub"
    by simp
  have c2: "set (map fst ?frame) = set df_sub"
    by simp
  have c3: "\<forall>pre cur post.
        map fst ?frame = pre @ cur # post
        \<and> list_all (\<lambda>r. customer_id r \<noteq> customer_id cur) pre
        \<longrightarrow> fst (?frame ! length pre) = cur \<and> nouveau_parcours (snd (?frame ! length pre))"
  proof (intro allI impI)
    fix pre cur post
    assume "map fst ?frame = pre @ cur # post
        \<and> list_all (\<lambda>r. customer_id r \<noteq> customer_id cur) pre"
    then show "fst (?frame ! length pre) = cur \<and> nouveau_parcours (snd (?frame ! length pre))"
      using first [of pre cur post] by (elim conjE)
  qed
  have c4: "\<forall>i < length df_sub.
        cumsum_parcours (snd (?frame ! i)) =
          length (filter nouveau_parcours (map snd (take (Suc i) ?frame)))"
    using df_sorted_cumsum [of _ df_sub] by (intro allI impI)
  have c5: "\<forall>i j k. i \<le> j \<and> j \<le> k \<and> k < length df_sub
        \<and> id_parcours (?frame ! i) = id_parcours (?frame ! k)
        \<longrightarrow> id_parcours (?frame ! j) = id_parcours (?frame ! i)"
  proof (intro allI impI)
    fix i j k
    assume "i \<le> j \<and> j \<le> k \<and> k < length df_sub
        \<and> id_parcours (?frame ! i) = id_parcours (?frame ! k)"
    then show "id_parcours (?frame ! j) = id_parcours (?frame ! i)"
      using contiguous [of i j k] by (elim conjE)
  qed
  have c6: "\<forall>i j. i < length df_sub \<and> j < length df_sub
        \<and> customer_id (fst (?frame ! i)) = customer_id (fst (?frame ! j))
        \<and> cumsum_parcours (snd (?frame ! i)) < cumsum_parcours (snd (?frame ! j))
        \<longrightarrow> i < j
            \<and> (\<forall>a b. order_date_dt (fst (?frame ! i)) = Some a
                   \<and> order_date_dt (fst (?frame ! j)) = Some b \<longrightarrow> ts_le a b)"
  proof (intro allI impI)
    fix i j
    assume "i < length df_sub \<and> j < length df_sub
        \<and> customer_id (fst (?frame ! i)) = customer_id (fst (?frame ! j))
        \<and> cumsum_parcours (snd (?frame ! i)) < cumsum_parcours (snd (?frame ! j))"
    then show "i < j
            \<and> (\<forall>a b. order_date_dt (fst (?frame ! i)) = Some a
                   \<and> order_date_dt (fst (?frame ! j)) = Some b \<longrightarrow> ts_le a b)"
      using ordered [of i j] by (elim conjE)
  qed
  from c1 c2 c3 c4 c5 c6 show ?thesis
    by (intro conjI)
qed

lemma three_subscriptions_frame:
  "map (\<lambda>x. (subscription_id (fst x), id_parcours x, nouveau_parcours (snd x)))
     (df_sorted three_subscriptions)
   = [(100, (1, 1), True), (101, (1, 2), True), (102, (1, 2), False), (200, (2, 3), True)]"
  by (simp add: df_sorted_def three_subscriptions_def id_parcours_def subscription_simps
      frequence_simps calendar_simps)

theorem journeys_partition_transactions_witness:
  "map (\<lambda>x. (subscription_id (fst x), id_parcours x, nouveau_parcours (snd x)))
     (df_sorted three_subscriptions)
   = [(100, (1, 1), True), (101, (1, 2), True), (102, (1, 2), False), (200, (2, 3), True)]
   \<and> length (df_sorted three_subscriptions) = length three_subscriptions
   \<and> set (map fst (df_sorted three_subscriptions)) = set three_subscriptions
   \<and> cumsum_parcours (snd (df_sorted three_subscriptions ! 2)) =
        length (filter nouveau_parcours (map snd (take 3 (df_sorted three_subscriptions))))"
proof -
  have l: "(2::nat) < length three_subscriptions"
    by (simp add: three_subscriptions_def)
  from journeys_partition_transactions [of three_subscriptions] l
  have "length (df_sorted three_subscriptions) = length three_subscriptions
   \<and> set (map fst (df_sorted three_subscriptions)) = set three_subscriptions
   \<and> cumsum_parcours (snd (df_sorted three_subscriptions ! 2)) =
        length (filter nouveau_parcours (map snd (take (Suc 2) (df_sorted three_subscriptions))))"
    by blast
  with three_subscriptions_frame show ?thesis
    by (simp add: eval_nat_numeral)
qed

subsection \<open>The amount of a month\<close>

lemma expand_row_montant:
  assumes "r \<in> set (expand_row frame x)"
  shows "source_row r = x
     \<and> Montant r = montant_mensuel (consolidated_revenues_ht_euro (fst x)) (frequence (fst x))"
proof (cases "order_date_dt (fst x)")
  case None
  with assms show ?thesis by (simp add: expand_row_def)
next
  case o: (Some ordered)
  show ?thesis
  proof (cases "ECHEANCE_date_dt (fst x)")
    case None
    with assms o show ?thesis by (simp add: expand_row_def)
  next
    case e: (Some echeance)
    show ?thesis
    proof (cases "journey_start_date frame (id_parcours x)")
      case None
      with assms o e show ?thesis by (simp add: expand_row_def)
    next
      case (Some started)
      with assms o e show ?thesis
        by (simp add: expand_row_def Let_def image_iff) force
    qed
  qed
qed

lemma create_monthly_report_montant:
  assumes "r \<in> set (create_monthly_report df_sub)"
  shows "source_row r \<in> set (df_sorted df_sub)"
    "Montant r = montant_mensuel (consolidated_revenues_ht_euro (fst (source_row r)))
                   (frequence (fst (source_row r)))"
proof -
  from assms obtain x where x: "x \<in> set (df_sorted df_sub)"
    and r: "r \<in> set (expand_row (df_sorted df_sub) x)"
    by (auto simp: create_monthly_report_def Let_def)
  from expand_row_montant [OF r] x
  show "source_row r \<in> set (df_sorted df_sub)"
    "Montant r = montant_mensuel (consolidated_revenues_ht_euro (fst (source_row r)))
                   (frequence (fst (source_row r)))"
    by simp_all
qed

lemma frequence_str_None: "frequence_str None = ''nan''"
  by (simp add: frequence_str_def str_lower_def char_lower_def)

lemma nan_has_no_keyword:
  "\<not> str_contains ''annual'' ''nan''" "\<not> str_contains ''monthly'' ''nan''"
  by simp_all

text \<open>
  Claim C7, for \<^verbatim>\<open>analyse_abo_court\<close> (and \<^verbatim>\<open>lancer_analyse\<close>, which has the same lines).
  Every row of the report copies a row of the sorted frame, and its \<^verbatim>\<open>Montant\<close> follows the
  frequency of that row, lower-cased: the revenue divided by 12 when it contains
  \<^verbatim>\<open>annual\<close>, else the revenue when it contains \<^verbatim>\<open>monthly\<close>, else 0; it is 0 when the
  frequency is missing and when the revenue cell is not a number.
\<close>

theorem montant_follows_frequency:
  assumes "r \<in> set (create_monthly_report df_sub)"
  shows "source_row r \<in> set (df_sorted df_sub)
     \<and> (\<forall>revenue f.
          consolidated_revenues_ht_euro (fst (source_row r)) = Some revenue
          \<and> frequence (fst (source_row r)) = Some f
          \<longrightarrow> Montant r =
                (if str_contains ''annual'' (str_lower f) then divide_by_12 revenue
                 else if str_contains ''monthly'' (str_lower f) then revenue
                 else Fin 0))
     \<and> (frequence (fst (source_row r)) = None \<longrightarrow> Montant r = Fin 0)
     \<and> (consolidated_revenues_ht_euro (fst (source_row r)) = None \<longrightarrow> Montant r = Fin 0)"
proof -
  note m = create_monthly_report_montant [OF assms]
  have a: "Montant r =
                (if str_contains ''annual'' (str_lower f) then divide_by_12 revenue
                 else if str_contains ''monthly'' (str_lower f) then revenue
                 else Fin 0)"
    if "consolidated_revenues_ht_euro (fst (source_row r)) = Some revenue"
      "frequence (fst (source_row r)) = Some f" for revenue f
    using that m(2) by (simp add: montant_mensuel_def frequence_str_def Let_def)
  have b: "Montant r = Fin 0" if "frequence (fst (source_row r)) = None"
    using that m(2) nan_has_no_keyword
    by (simp add: montant_mensuel_def frequence_str_None Let_def split: option.splits)
  have c: "Montant r = Fin 0" if "consolidated_revenues_ht_euro (fst (source_row r)) = None"
    using that m(2) by (simp add: montant_mensuel_def)
  from m(1) a b c show ?thesis
    by blast
qed

lemmas report_simps =
  create_monthly_report_def df_sorted_def expand_row_def journey_start_date_def
  id_parcours_def List.map_filter_simps montant_mensuel_def frequence_str_def
  create_monthly_report_ja_def df_sorted_ja_def expand_row_ja_def date_range_MS_def
  montant_mensuel_ja_def replace_day1_def ts_le_def ts_lt_def next_month_def months_diff_def
  months_loop.simps [of "\<lparr>year = y, month = m, day = d\<rparr>" for y m d]

lemma annual_report:
  "map (\<lambda>r. (fst (source_row r), month_col r, Montant r))
      (create_monthly_report [annual_subscription])
   = [(annual_subscription, ymd 2023 Jan 1, Fin 10), (annual_subscription, ymd 2023 Feb 1, Fin 10)]"
  by (simp add: annual_subscription_def report_simps subscription_simps frequence_simps
      calendar_simps)

theorem montant_follows_frequency_witness:
  "create_monthly_report [annual_subscription] ! 0 \<in> set (create_monthly_report [annual_subscription])
   \<and> frequence (fst (source_row (create_monthly_report [annual_subscription] ! 0))) = Some ''Annual''
   \<and> Montant (create_monthly_report [annual_subscription] ! 0) = divide_by_12 (Fin 120)
   \<and> divide_by_12 (Fin 120) = Fin 10"
proof -
  let ?xs = "create_monthly_report [annual_subscription]"
  let ?r = "?xs ! 0"
  let ?f = "\<lambda>r. (fst (source_row r), month_col r, Montant r)"
  have l: "length ?xs = 2"
    using arg_cong [OF annual_report, of length] by simp
  then have mem: "?r \<in> set ?xs"
    by simp
  have "map ?f ?xs ! 0 = (annual_subscription, ymd 2023 Jan 1, Fin 10)"
    unfolding annual_report by simp
  then have "?f ?r = (annual_subscription, ymd 2023 Jan 1, Fin 10)"
    using l by (simp only: nth_map zero_less_numeral)
  then have src: "fst (source_row ?r) = annual_subscription"
    by simp
  have c: "consolidated_revenues_ht_euro (fst (source_row ?r)) = Some (Fin 120)
      \<and> frequence (fst (source_row ?r)) = Some ''Annual''"
    unfolding src by (simp add: annual_subscription_def mk_subscription_def)
  have k: "str_contains ''annual'' (str_lower ''Annual'')"
    by (simp add: frequence_simps)
  from montant_follows_frequency [OF mem] c k
  have "Montant ?r = divide_by_12 (Fin 120)"
    by (elim conjE) simp
  with mem c show ?thesis
    by simp
qed

text \<open>
  \<^verbatim>\<open>pipeline_JA\<close> looks for \<^verbatim>\<open>annuel\<close> and \<^verbatim>\<open>mensuel\<close>: a subscription with the frequency
  \<^verbatim>\<open>monthly\<close> and a revenue of 120 gets the amount 0 in every month there, and 120 in
  \<^verbatim>\<open>analyse_abo_court\<close>.
\<close>

theorem french_keywords_counterexample:
  "frequence monthly_subscription = Some ''monthly''
   \<and> consolidated_revenues_ht_euro monthly_subscription = Some (Fin 120)
   \<and> map (\<lambda>r. (subscription_id (fst (source_row r)), month_col r, Montant r))
        (create_monthly_report_ja [monthly_subscription])
      = [(100, ymd 2023 Jan 1, Fin 0), (100, ymd 2023 Feb 1, Fin 0)]
   \<and> map (\<lambda>r. (subscription_id (fst (source_row r)), month_col r, Montant r))
        (create_monthly_report [monthly_subscription])
      = [(100, ymd 2023 Jan 1, Fin 120), (100, ymd 2023 Feb 1, Fin 120)]"
  by (simp add: monthly_subscription_def report_simps subscription_simps frequence_simps
      calendar_simps)

subsection \<open>The months of the monthly report\<close>

lemma ts_le_index_day1:
  "day a = 1 \<Longrightarrow> 1 \<le> day b \<Longrightarrow> ts_le a b \<longleftrightarrow> month_index a \<le> month_index b"
  using month_num_bounds [of "month a"] month_num_bounds [of "month b"]
  by (auto simp: ts_le_def ts_key_def month_index_def less_eq_prod_def)

lemma months_loop_day1_index:
  "day s = 1 \<Longrightarrow> 1 \<le> day e \<Longrightarrow>
     map month_index (months_loop s e) = [month_index s..month_index e]"
proof (induction s e rule: months_loop.induct)
  case (1 current_month end_month)
  show ?case
  proof (cases "ts_le current_month end_month")
    case True
    with 1 have le: "month_index current_month \<le> month_index end_month"
      by (simp add: ts_le_index_day1)
    from 1 True have "map month_index (months_loop (next_month current_month) end_month)
        = [month_index current_month + 1..month_index end_month]"
      by simp
    with True le show ?thesis
      by (subst months_loop.simps) (simp add: upto_rec1)
  next
    case False
    with 1 have "month_index end_month < month_index current_month"
      by (simp add: ts_le_index_day1)
    with False show ?thesis
      by (subst months_loop.simps) simp
  qed
qed

lemma date_range_MS_index:
  assumes "1 \<le> day end_date"
  shows "map month_index (date_range_MS start end_date)
     = [(if day start = 1 then month_index start else month_index start + 1)..month_index end_date]"
  unfolding date_range_MS_def using assms by (simp add: months_loop_day1_index)







text \<open>
  In \<^verbatim>\<open>pipeline_JA\<close> the range of month starts begins at the order date itself: ordered on
  15 January 2023 and due on 20 March 2023, the subscription has the rows of February and
  March only.
\<close>

lemma mid_month_report_ja:
  "map (\<lambda>r. (month_col r, month_relatif r)) (create_monthly_report_ja [mid_month_subscription])
     = [(ymd 2023 Feb 1, 1), (ymd 2023 Mar 1, 2)]"
  by (simp add: mid_month_subscription_def report_simps subscription_simps ymd_def)

end
